(* ===== verification/Prelude.thy ===== *)
theory Prelude
  imports Main "HOL-Library.Word" "HOL-Library.Sublist"
begin

text \<open>
  Shared vocabulary of the development: the errors a C++ operation of the framework can end with,
  the result type that carries them, and the generic facts on lists, options and bytes that
  several components use. A \<open>std::string\<close> and a \<open>std::vector<char>\<close> are both lists of
  characters; a C++ exception, a failed assertion and an access outside an array are values
  of \<open>cpp_error\<close>.
\<close>

section \<open>Errors and results\<close>

datatype cpp_error =
    Invalid_argument      \<comment> \<open>\<open>std::invalid_argument\<close>, thrown by \<open>std::stoi\<close>\<close>
  | Out_of_range          \<comment> \<open>\<open>std::out_of_range\<close>, thrown by \<open>std::stoi\<close>\<close>
  | Bad_function_call     \<comment> \<open>calling an empty \<open>std::function\<close>\<close>
  | Length_error          \<comment> \<open>\<open>std::length_error\<close>, thrown by \<open>vector::resize\<close>\<close>
  | Literal_thrown string \<comment> \<open>\<open>throw "..."\<close>\<close>
  | Assertion_failed      \<comment> \<open>\<open>assert(false)\<close>\<close>
  | Out_of_bounds         \<comment> \<open>an access outside an array (undefined behaviour)\<close>
  | System_error          \<comment> \<open>\<open>boost::system::system_error\<close>, thrown by a failed socket operation\<close>
  | Runtime_error         \<comment> \<open>\<open>std::runtime_error\<close>\<close>
  | Null_pointer          \<comment> \<open>an access through a null pointer (undefined behaviour)\<close>
  | Uninitialised         \<comment> \<open>a read of memory that was never written (undefined behaviour)\<close>
  | Use_after_free        \<comment> \<open>an access to a deleted object (undefined behaviour)\<close>
  | Signed_overflow       \<comment> \<open>an \<open>int\<close> incremented beyond its range (undefined behaviour)\<close>
  | No_overload           \<comment> \<open>a call that no overload takes (rejected by the compiler)\<close>

type_synonym 'a res = "cpp_error + 'a"

type_synonym bytes = "char list"

type_synonym u32 = "32 word"

type_synonym u64 = "64 word"

named_theorems wf_intros \<open>introduction rules for the well-formedness predicates\<close>
named_theorems step_simps \<open>unfoldings of the handlers, for case analysis of one step\<close>

definition res_bind :: "'a res \<Rightarrow> ('a \<Rightarrow> 'b res) \<Rightarrow> 'b res" where
  "res_bind m f = (case m of Inl e \<Rightarrow> Inl e | Inr x \<Rightarrow> f x)"

lemma res_bind_simps [simp]:
  "res_bind (Inl e) f = Inl e"
  "res_bind (Inr x) f = f x"
  by (simp_all add: res_bind_def)

lemma res_bind_eq_Inr [simp]:
  "res_bind m f = Inr y \<longleftrightarrow> (\<exists>x. m = Inr x \<and> f x = Inr y)"
  by (cases m) auto

lemma res_bind_eq_Inl:
  "res_bind m f = Inl e \<longleftrightarrow> m = Inl e \<or> (\<exists>x. m = Inr x \<and> f x = Inl e)"
  by (cases m) auto

lemma res_bind_cong [fundef_cong]:
  "m = m' \<Longrightarrow> (\<And>x. m' = Inr x \<Longrightarrow> f x = g x) \<Longrightarrow> res_bind m f = res_bind m' g"
  by (cases m') auto

section \<open>Lists\<close>

lemma takeWhile_append_stop:
  "(\<forall>x\<in>set xs. P x) \<Longrightarrow> \<not> P y \<Longrightarrow> takeWhile P (xs @ y # ys) = xs"
  by (induction xs) auto

lemma dropWhile_append_stop:
  "(\<forall>x\<in>set xs. P x) \<Longrightarrow> \<not> P y \<Longrightarrow> dropWhile P (xs @ y # ys) = y # ys"
  by (induction xs) auto

lemma takeWhile_all:
  "(\<forall>x\<in>set xs. P x) \<Longrightarrow> takeWhile P xs = xs"
  by (induction xs) auto

lemma last_in_set_append: "xs \<noteq> [] \<Longrightarrow> last (ys @ xs) = last xs"
  by simp

section \<open>Invariants of step relations\<close>

text \<open>
  The components that run concurrently or are driven by events are step relations. What holds
  at every start and is kept by every step holds in every state that can be reached.
\<close>

locale invariant_of =
  fixes start :: "'s \<Rightarrow> bool"
    and step :: "'s \<Rightarrow> 's \<Rightarrow> bool"
    and inv :: "'s \<Rightarrow> bool"
  assumes inv_start: "start s \<Longrightarrow> inv s"
    and inv_step: "inv s \<Longrightarrow> step s s' \<Longrightarrow> inv s'"
begin

lemma inv_steps: "step\<^sup>*\<^sup>* s s' \<Longrightarrow> inv s \<Longrightarrow> inv s'"
  by (induction rule: rtranclp_induct) (blast intro: inv_step)+

lemma inv_reachable: "start s \<Longrightarrow> step\<^sup>*\<^sup>* s s' \<Longrightarrow> inv s'"
  using inv_steps inv_start by blast

end

text \<open>
  A refinement: every step from a state that satisfies the invariant is a step of the abstract
  machine on the abstraction of the state, or leaves the abstraction unchanged.
\<close>

locale simulation = invariant_of start step inv
  for start :: "'s \<Rightarrow> bool" and step :: "'s \<Rightarrow> 's \<Rightarrow> bool" and inv :: "'s \<Rightarrow> bool" +
  fixes abs :: "'s \<Rightarrow> 'a"
    and abs_start :: 'a
    and abs_step :: "'a \<Rightarrow> 'a \<Rightarrow> bool"
  assumes sim_start: "start s \<Longrightarrow> abs s = abs_start"
    and sim_step: "inv s \<Longrightarrow> step s s' \<Longrightarrow> abs s' = abs s \<or> abs_step (abs s) (abs s')"
begin

lemma sim_steps: "step\<^sup>*\<^sup>* s s' \<Longrightarrow> inv s \<Longrightarrow> abs_step\<^sup>*\<^sup>* (abs s) (abs s')"
proof (induction rule: rtranclp_induct)
  case (step t u)
  then have "inv t" by (blast intro: inv_steps)
  then have "abs u = abs t \<or> abs_step (abs t) (abs u)" using step.hyps(2) by (rule sim_step)
  with step show ?case by (auto intro: rtranclp.rtrancl_into_rtrancl)
qed simp

lemma sim_reachable: "start s \<Longrightarrow> step\<^sup>*\<^sup>* s s' \<Longrightarrow> abs_step\<^sup>*\<^sup>* abs_start (abs s')"
  using sim_steps [of s s'] inv_start [of s] sim_start [of s] by simp

end

end
