(* ===== verification/WorkerThread.thy ===== *)
theory WorkerThread
  imports Prelude
begin

text \<open>
  The worker thread of \<open>lib/workerthread.h\<close> and \<open>lib/workerthread.cpp\<close>: a message queue
  under a mutex, the loop \<open>Process\<close> that takes one message at a time, and the timer thread that
  posts a message every 250 ms. Each atomic section of the code (what runs under the mutex, or
  touches no shared state) is one function on the state of the object; a step relation interleaves
  the client threads, the worker and the timer in any order. The worker sleeps in the condition
  variable from an empty queue until a thread that pushes notifies it. A wait that ends without a
  notification, which C++ allows, is no step: the worker tests the queue again, finds it empty and waits again; that the
  worker goes on after a message was pushed must not depend on it.
\<close>

section \<open>State\<close>

datatype MsgType = MSG_POST_USER_DATA | MSG_TIMER | MSG_EXIT_THREAD

type_synonym thread_id = nat

text \<open>A message; \<open>None\<close> is the callback \<open>nullptr\<close>.\<close>

record 'f ThreadMsg =
  msg_type :: MsgType
  msg_callback :: "'f option"

text \<open>Where the worker is in \<open>Process\<close>, and the timer in \<open>TimerThread\<close>.\<close>

datatype 'f worker_pc =
    W_NotCreated
  | W_Created                  \<comment> \<open>before the first statement of \<open>Process\<close>\<close>
  | W_Loop                     \<comment> \<open>at the head of \<open>while (1)\<close>, or woken and about to test the queue again\<close>
  | W_Wait                     \<comment> \<open>in \<open>m_cv.wait(lk)\<close>, until it is notified\<close>
  | W_Handle "'f ThreadMsg"    \<comment> \<open>at the \<open>switch\<close> on the message taken\<close>
  | W_Join                     \<comment> \<open>in \<open>timerThread.join()\<close>\<close>
  | W_Returned
  | W_Aborted                  \<comment> \<open>a failed \<open>assert\<close>\<close>

datatype timer_pc = T_NotCreated | T_Test | T_Sleep | T_Returned

text \<open>
  \<open>m_thread\<close> is the identity of the thread object, \<open>None\<close> for \<open>nullptr\<close>; a default
  \<open>std::thread::id\<close> is \<open>None\<close> too. The last three fields do not exist in the code: they record
  every message that was pushed, every message that was taken from the queue, and every callback
  that was run, in order.
\<close>

record 'f worker =
  THREAD_NAME :: string
  m_thread :: "thread_id option"
  m_queue :: "'f ThreadMsg list"
  m_timerExit :: bool
  thisId :: "thread_id option"
  w_pc :: "'f worker_pc"
  t_pc :: timer_pc
  pushed :: "'f ThreadMsg list"
  taken :: "'f ThreadMsg list"
  ran :: "'f list"

section \<open>Operations\<close>

text \<open>The constructor leaves \<open>m_timerExit\<close> uninitialised: it is a parameter.\<close>

definition WorkerThread :: "bool \<Rightarrow> string \<Rightarrow> 'f worker" where
  "WorkerThread uninit name = \<lparr>THREAD_NAME = name, m_thread = None, m_queue = [],
     m_timerExit = uninit, thisId = None, w_pc = W_NotCreated, t_pc = T_NotCreated,
     pushed = [], taken = [], ran = []\<rparr>"

definition CreateThread :: "thread_id \<Rightarrow> 'f worker \<Rightarrow> bool \<times> 'f worker" where
  "CreateThread fresh w =
     (True, if m_thread w = None then w\<lparr>m_thread := Some fresh, w_pc := W_Created\<rparr> else w)"

text \<open>\<open>m_cv.notify_one()\<close>: only the worker waits, and it goes back to the test of its inner loop.\<close>

definition notify_one :: "'f worker \<Rightarrow> 'f worker" where
  "notify_one w = (if w_pc w = W_Wait then w\<lparr>w_pc := W_Loop\<rparr> else w)"

text \<open>The section under the mutex that every thread runs which adds a message.\<close>

definition push_msg :: "'f ThreadMsg \<Rightarrow> 'f worker \<Rightarrow> 'f worker" where
  "push_msg msg w = notify_one (w\<lparr>m_queue := m_queue w @ [msg], pushed := pushed w @ [msg]\<rparr>)"

definition ExitThread :: "'f worker \<Rightarrow> 'f worker" where
  "ExitThread w = push_msg \<lparr>msg_type = MSG_EXIT_THREAD, msg_callback = None\<rparr> w"

definition GetThreadId :: "'f worker \<Rightarrow> thread_id option" where
  "GetThreadId w = thisId w"

definition PostMsg :: "'f option \<Rightarrow> 'f worker \<Rightarrow> 'f worker" where
  "PostMsg data w = push_msg \<lparr>msg_type = MSG_POST_USER_DATA, msg_callback = data\<rparr> w"

text \<open>The timer: the test of the loop, and the body after the sleep.\<close>

definition TimerThread_test :: "'f worker \<Rightarrow> 'f worker" where
  "TimerThread_test w = w\<lparr>t_pc := (if \<not> m_timerExit w then T_Sleep else T_Returned)\<rparr>"

definition TimerThread_body :: "'f worker \<Rightarrow> 'f worker" where
  "TimerThread_body w =
     (push_msg \<lparr>msg_type = MSG_TIMER, msg_callback = None\<rparr> w)\<lparr>t_pc := T_Test\<rparr>"

text \<open>
  The worker: the statements before the loop, the section that takes a message or waits for one, and
  the handling of a message.
\<close>

definition Process_start :: "'f worker \<Rightarrow> 'f worker" where
  "Process_start w =
     w\<lparr>thisId := m_thread w, m_timerExit := False, t_pc := T_Test, w_pc := W_Loop\<rparr>"

definition Process_take :: "'f worker \<Rightarrow> 'f worker" where
  "Process_take w = (case m_queue w of
       [] \<Rightarrow> w\<lparr>w_pc := W_Wait\<rparr>
     | msg # q \<Rightarrow> w\<lparr>m_queue := q, w_pc := W_Handle msg, taken := taken w @ [msg]\<rparr>)"

definition Process_handle :: "'f ThreadMsg \<Rightarrow> 'f worker \<Rightarrow> 'f worker" where
  "Process_handle msg w = (case msg_type msg of
       MSG_POST_USER_DATA \<Rightarrow>
         (case msg_callback msg of
            None \<Rightarrow> w\<lparr>w_pc := W_Aborted\<rparr>
          | Some f \<Rightarrow> w\<lparr>ran := ran w @ [f], w_pc := W_Loop\<rparr>)
     | MSG_TIMER \<Rightarrow> w\<lparr>w_pc := W_Loop\<rparr>
     | MSG_EXIT_THREAD \<Rightarrow> w\<lparr>m_timerExit := True, w_pc := W_Join\<rparr>)"

fun drain :: "'f ThreadMsg list \<Rightarrow> 'f ThreadMsg list" where
  "drain [] = []"
| "drain (msg # q) = drain q"

definition Process_finish :: "'f worker \<Rightarrow> 'f worker" where
  "Process_finish w = w\<lparr>m_queue := drain (m_queue w), w_pc := W_Returned\<rparr>"

text \<open>
  The destructor joins the thread, so it returns only once the worker has returned; \<open>None\<close> is
  a destructor that waits.
\<close>

definition WorkerThread_destroy :: "'f worker \<Rightarrow> 'f worker option" where
  "WorkerThread_destroy w =
     (if m_thread w = None then Some w
      else if w_pc w = W_Returned then Some (w\<lparr>m_thread := None\<rparr>) else None)"

section \<open>Interleavings\<close>

inductive worker_step :: "'f worker \<Rightarrow> 'f worker \<Rightarrow> bool" where
  create: "worker_step w (snd (CreateThread i w))"
| post: "worker_step w (PostMsg data w)"
| exit: "worker_step w (ExitThread w)"
| start: "w_pc w = W_Created \<Longrightarrow> worker_step w (Process_start w)"
| take_msg: "w_pc w = W_Loop \<Longrightarrow> worker_step w (Process_take w)"
| handle: "w_pc w = W_Handle msg \<Longrightarrow> worker_step w (Process_handle msg w)"
| finish: "w_pc w = W_Join \<Longrightarrow> t_pc w = T_Returned \<Longrightarrow> worker_step w (Process_finish w)"
| timer_test: "t_pc w = T_Test \<Longrightarrow> worker_step w (TimerThread_test w)"
| timer_body: "t_pc w = T_Sleep \<Longrightarrow> worker_step w (TimerThread_body w)"

inductive_cases worker_stepE: "worker_step w w'"

lemma push_msg_simps [simp]:
  "m_queue (push_msg msg w) = m_queue w @ [msg]" "pushed (push_msg msg w) = pushed w @ [msg]"
  "w_pc (push_msg msg w) = (if w_pc w = W_Wait then W_Loop else w_pc w)" "m_timerExit (push_msg msg w) = m_timerExit w"
  "t_pc (push_msg msg w) = t_pc w" "taken (push_msg msg w) = taken w" "ran (push_msg msg w) = ran w"
  "thisId (push_msg msg w) = thisId w" "m_thread (push_msg msg w) = m_thread w"
  by (simp_all add: push_msg_def notify_one_def)

lemmas worker_op_defs [step_simps] =
  CreateThread_def ExitThread_def PostMsg_def TimerThread_test_def
  TimerThread_body_def Process_start_def Process_take_def Process_handle_def Process_finish_def

section \<open>The invariant\<close>

definition callbacks :: "'f ThreadMsg list \<Rightarrow> 'f list" where
  "callbacks msgs =
     concat (map (\<lambda>m. if msg_type m = MSG_POST_USER_DATA
                      then (case msg_callback m of None \<Rightarrow> [] | Some f \<Rightarrow> [f]) else []) msgs)"

abbreviation no_exit :: "'f ThreadMsg list \<Rightarrow> bool" where
  "no_exit msgs \<equiv> \<forall>m\<in>set msgs. msg_type m \<noteq> MSG_EXIT_THREAD"

abbreviation before_exit :: "'f ThreadMsg list \<Rightarrow> 'f ThreadMsg list" where
  "before_exit msgs \<equiv> takeWhile (\<lambda>m. msg_type m \<noteq> MSG_EXIT_THREAD) msgs"

definition has_callback :: "'f ThreadMsg \<Rightarrow> bool" where
  "has_callback m \<longleftrightarrow> (msg_type m = MSG_POST_USER_DATA \<longrightarrow> msg_callback m \<noteq> None)"

text \<open>How the messages taken, the callbacks run and the place in \<open>Process\<close> agree.\<close>

definition taken_ok :: "'f worker \<Rightarrow> bool" where
  "taken_ok w \<longleftrightarrow> (case w_pc w of
       W_NotCreated \<Rightarrow> taken w = [] \<and> ran w = []
     | W_Created \<Rightarrow> taken w = [] \<and> ran w = []
     | W_Loop \<Rightarrow> no_exit (taken w) \<and> ran w = callbacks (taken w)
     | W_Wait \<Rightarrow> no_exit (taken w) \<and> ran w = callbacks (taken w)
     | W_Handle msg \<Rightarrow>
         (\<exists>ms. taken w = ms @ [msg] \<and> no_exit ms \<and> ran w = callbacks ms)
     | W_Aborted \<Rightarrow> no_exit (taken w) \<and> ran w = callbacks (taken w) \<and>
         \<not> list_all has_callback (taken w)
     | _ \<Rightarrow> (\<exists>ms e. taken w = ms @ [e] \<and> no_exit ms \<and> msg_type e = MSG_EXIT_THREAD \<and>
              ran w = callbacks ms))"

text \<open>No wake-up is lost: the worker sleeps only while there is nothing to take.\<close>

definition queue_ok :: "'f worker \<Rightarrow> bool" where
  "queue_ok w \<longleftrightarrow> (\<exists>dropped. pushed w = taken w @ dropped @ m_queue w \<and>
     (w_pc w \<noteq> W_Returned \<longrightarrow> dropped = [])) \<and> (w_pc w = W_Wait \<longrightarrow> m_queue w = [])"

definition threads_ok :: "'f worker \<Rightarrow> bool" where
  "threads_ok w \<longleftrightarrow>
     (m_thread w = None \<longleftrightarrow> w_pc w = W_NotCreated) \<and>
     (t_pc w = T_NotCreated \<longleftrightarrow> w_pc w \<in> {W_NotCreated, W_Created}) \<and>
     (t_pc w \<noteq> T_NotCreated \<longrightarrow> (m_timerExit w \<longleftrightarrow> w_pc w \<in> {W_Join, W_Returned})) \<and>
     (t_pc w = T_Returned \<longrightarrow> w_pc w \<in> {W_Join, W_Returned}) \<and>
     (w_pc w = W_Returned \<longrightarrow> t_pc w = T_Returned) \<and>
     thisId w = (if t_pc w = T_NotCreated then None else m_thread w)"

definition worker_inv :: "'f worker \<Rightarrow> bool" where
  "worker_inv w \<longleftrightarrow> taken_ok w \<and> queue_ok w \<and> threads_ok w"

lemma callbacks_append [simp]: "callbacks (xs @ ys) = callbacks xs @ callbacks ys"
  by (simp add: callbacks_def)

lemma callbacks_simps [simp]:
  "callbacks [] = []"
  "callbacks (m # ms) = (if msg_type m = MSG_POST_USER_DATA
      then (case msg_callback m of None \<Rightarrow> [] | Some f \<Rightarrow> [f]) else []) @ callbacks ms"
  by (simp_all add: callbacks_def)

lemma drain_Nil [simp]: "drain q = []"
  by (induction q) auto

lemma before_exit_append: "no_exit xs \<Longrightarrow> before_exit (xs @ ys) = xs @ before_exit ys"
  by (induction xs) auto

lemma taken_ok_step: "worker_step w w' \<Longrightarrow> threads_ok w \<Longrightarrow> taken_ok w \<Longrightarrow> taken_ok w'"
proof (induction rule: worker_step.induct)
  case (handle w msg)
  then show ?case
    by (cases "msg_type msg"; cases "msg_callback msg")
      (auto simp: taken_ok_def Process_handle_def has_callback_def)
qed (auto simp: taken_ok_def threads_ok_def step_simps split: worker_pc.splits list.splits)

lemma queue_ok_step: "worker_step w w' \<Longrightarrow> threads_ok w \<Longrightarrow> queue_ok w \<Longrightarrow> queue_ok w'"
proof (induction rule: worker_step.induct)
  case (handle w msg)
  then show ?case
    by (cases "msg_type msg"; cases "msg_callback msg") (auto simp: queue_ok_def Process_handle_def)
qed (auto simp: queue_ok_def threads_ok_def step_simps split: list.splits)

lemma threads_ok_step: "worker_step w w' \<Longrightarrow> threads_ok w \<Longrightarrow> threads_ok w'"
proof (induction rule: worker_step.induct)
  case (handle w msg)
  then show ?case
    by (cases "msg_type msg"; cases "msg_callback msg") (auto simp: threads_ok_def Process_handle_def)
qed (auto simp: threads_ok_def step_simps split: list.splits)

definition worker_start :: "'f worker \<Rightarrow> bool" where
  "worker_start w \<longleftrightarrow> (\<exists>uninit name. w = WorkerThread uninit name)"

interpretation worker: invariant_of worker_start worker_step worker_inv
proof
  show "worker_start w \<Longrightarrow> worker_inv w" for w :: "'f worker"
    by (auto simp: worker_start_def WorkerThread_def worker_inv_def taken_ok_def queue_ok_def
        threads_ok_def)
  show "worker_inv w \<Longrightarrow> worker_step w w' \<Longrightarrow> worker_inv w'" for w w' :: "'f worker"
    unfolding worker_inv_def using taken_ok_step queue_ok_step threads_ok_step by blast
qed

section \<open>Shutting down\<close>

lemma join_returns:
  assumes "threads_ok w" and "w_pc w = W_Join"
  shows "\<exists>w'. worker_step\<^sup>*\<^sup>* w w' \<and> w_pc w' = W_Returned"
proof -
  have final: "\<exists>w'. worker_step\<^sup>*\<^sup>* v w' \<and> w_pc w' = W_Returned"
    if "w_pc v = W_Join" "t_pc v = T_Returned" for v :: "'a worker"
    using that worker_step.finish [of v] by (auto simp: Process_finish_def)
  have test: "\<exists>w'. worker_step\<^sup>*\<^sup>* v w' \<and> w_pc w' = W_Returned"
    if "w_pc v = W_Join" "t_pc v = T_Test" "m_timerExit v" for v :: "'a worker"
    using that final [of "TimerThread_test v"] worker_step.timer_test [of v]
    by (auto simp: TimerThread_test_def intro: converse_rtranclp_into_rtranclp)
  show ?thesis
  proof (cases "t_pc w")
    case T_NotCreated
    with assms show ?thesis by (simp add: threads_ok_def)
  next
    case T_Test
    with assms test [of w] show ?thesis by (simp add: threads_ok_def)
  next
    case T_Sleep
    with assms have "\<exists>w'. worker_step\<^sup>*\<^sup>* (TimerThread_body w) w' \<and> w_pc w' = W_Returned"
      by (intro test) (simp_all add: threads_ok_def TimerThread_body_def)
    with worker_step.timer_body [OF T_Sleep] show ?thesis
      by (blast intro: converse_rtranclp_into_rtranclp)
  next
    case T_Returned
    with assms final show ?thesis by simp
  qed
qed

lemma handle_loop:
  assumes "w_pc w = W_Handle msg" and "has_callback msg" and "msg_type msg \<noteq> MSG_EXIT_THREAD"
  shows "w_pc (Process_handle msg w) = W_Loop" "m_queue (Process_handle msg w) = m_queue w"
  using assms by (cases "msg_type msg"; auto simp: Process_handle_def has_callback_def)+

lemma handle_returns:
  assumes "threads_ok w" and "w_pc w = W_Handle msg" and "has_callback msg"
    and loop: "\<And>v. threads_ok v \<Longrightarrow> w_pc v = W_Loop \<Longrightarrow> m_queue v = m_queue w \<Longrightarrow>
      msg_type msg \<noteq> MSG_EXIT_THREAD \<Longrightarrow> \<exists>w'. worker_step\<^sup>*\<^sup>* v w' \<and> w_pc w' = W_Returned"
  shows "\<exists>w'. worker_step\<^sup>*\<^sup>* w w' \<and> w_pc w' = W_Returned"
proof -
  note step = worker_step.handle [OF assms(2)]
  from step have ok: "threads_ok (Process_handle msg w)"
    using assms(1) by (rule threads_ok_step)
  have "\<exists>w'. worker_step\<^sup>*\<^sup>* (Process_handle msg w) w' \<and> w_pc w' = W_Returned"
  proof (cases "msg_type msg = MSG_EXIT_THREAD")
    case True
    with ok show ?thesis by (intro join_returns) (simp_all add: Process_handle_def)
  next
    case False
    with ok handle_loop [OF assms(2,3) False] show ?thesis by (intro loop) simp_all
  qed
  with step show ?thesis by (blast intro: converse_rtranclp_into_rtranclp)
qed

lemma loop_returns:
  assumes "threads_ok w" and "w_pc w = W_Loop"
    and "\<forall>m\<in>set (m_queue w). has_callback m" and "\<not> no_exit (m_queue w)"
  shows "\<exists>w'. worker_step\<^sup>*\<^sup>* w w' \<and> w_pc w' = W_Returned"
  using assms
proof (induction "m_queue w" arbitrary: w)
  case (Cons m q)
  note q = Cons.hyps(2) [symmetric]
  have step: "worker_step w (Process_take w)"
    using Cons.prems(2) by (rule worker_step.take_msg)
  have "\<exists>w'. worker_step\<^sup>*\<^sup>* (Process_take w) w' \<and> w_pc w' = W_Returned"
  proof (rule handle_returns)
    show "threads_ok (Process_take w)"
      using step Cons.prems(1) by (rule threads_ok_step)
    show "w_pc (Process_take w) = W_Handle m" using q by (simp add: Process_take_def)
    show "has_callback m" using Cons.prems(3) q by simp
    fix v :: "'a worker"
    assume "threads_ok v" "w_pc v = W_Loop" "m_queue v = m_queue (Process_take w)"
      "msg_type m \<noteq> MSG_EXIT_THREAD"
    then show "\<exists>w'. worker_step\<^sup>*\<^sup>* v w' \<and> w_pc w' = W_Returned"
      using Cons.hyps(1) [of v] Cons.prems(3,4) q by (simp add: Process_take_def)
  qed
  with step show ?case by (blast intro: converse_rtranclp_into_rtranclp)
qed simp

lemma exit_returns:
  assumes "worker_inv w" and "w_pc w \<noteq> W_NotCreated" and "list_all has_callback (pushed w)"
  shows "\<exists>w'. worker_step\<^sup>*\<^sup>* (ExitThread w) w' \<and> w_pc w' = W_Returned"
proof -
  let ?e = "ExitThread w"
  have e: "w_pc ?e = (if w_pc w = W_Wait then W_Loop else w_pc w)" "m_queue ?e = m_queue w @ [\<lparr>msg_type = MSG_EXIT_THREAD, msg_callback = None\<rparr>]"
    by (simp_all add: ExitThread_def)
  have ok: "threads_ok ?e"
    using assms(1) threads_ok_step [OF worker_step.exit [of w]] by (simp add: worker_inv_def)
  obtain dropped where pushed: "pushed w = taken w @ dropped @ m_queue w"
    using assms(1) by (auto simp: worker_inv_def queue_ok_def)
  then have q: "\<forall>m\<in>set (m_queue ?e). has_callback m" and t: "list_all has_callback (taken w)"
    using assms(3) e(2) by (auto simp: list_all_iff has_callback_def)
  have exit: "\<not> no_exit (m_queue ?e)" using e(2) by simp
  show ?thesis
  proof (cases "w_pc w")
    case W_Created
    let ?s = "Process_start ?e"
    have step: "worker_step ?e ?s" using W_Created e(1) by (intro worker_step.start) simp
    have "\<exists>w'. worker_step\<^sup>*\<^sup>* ?s w' \<and> w_pc w' = W_Returned"
      using threads_ok_step [OF step ok] q exit
      by (intro loop_returns) (simp_all add: Process_start_def)
    with step show ?thesis by (blast intro: converse_rtranclp_into_rtranclp)
  next
    case W_Loop
    with ok q exit e show ?thesis by (intro loop_returns) simp_all
  next
    case W_Wait
    with ok q exit e show ?thesis by (intro loop_returns) simp_all
  next
    case (W_Handle msg)
    then have pc: "w_pc ?e = W_Handle msg" using e(1) by simp
    have "has_callback msg"
      using assms(1) t W_Handle by (auto simp: worker_inv_def taken_ok_def)
    then show ?thesis
    proof (rule handle_returns [OF ok pc])
      fix v :: "'a worker"
      assume "threads_ok v" "w_pc v = W_Loop" "m_queue v = m_queue ?e"
      with q exit show "\<exists>w'. worker_step\<^sup>*\<^sup>* v w' \<and> w_pc w' = W_Returned"
        using loop_returns [of v] by simp
    qed
  next
    case W_Join
    with ok e(1) show ?thesis by (intro join_returns) simp_all
  next
    case W_Aborted
    with assms(1) t show ?thesis by (simp add: worker_inv_def taken_ok_def)
  next
    case W_Returned
    with e(1) show ?thesis by (intro exI [of _ ?e]) simp
  qed (use assms(2) in simp)
qed

lemma returned_stays:
  assumes "worker_step\<^sup>*\<^sup>* w w'" and "threads_ok w" and "w_pc w = W_Returned"
  shows "w_pc w' = W_Returned \<and> ran w' = ran w \<and> threads_ok w'"
  using assms
proof (induction rule: rtranclp_induct)
  case (step v v')
  then show ?case
    using threads_ok_step [OF step.hyps(2)]
    by (elim worker_stepE) (auto simp: threads_ok_def step_simps)
qed simp

section \<open>Properties\<close>

lemma taken_split:
  assumes "taken_ok w"
  shows "\<exists>ms ms'. taken w = ms @ ms' \<and> no_exit ms \<and> ran w = callbacks ms"
proof (cases "no_exit (taken w) \<and> ran w = callbacks (taken w)")
  case True
  then show ?thesis by (intro exI [of _ "taken w"] exI [of _ "[]"]) simp
next
  case False
  with assms show ?thesis by (auto simp: taken_ok_def split: worker_pc.splits)
qed

lemma returned_ran:
  assumes "worker_inv w" and "w_pc w = W_Returned"
  shows "ran w = callbacks (before_exit (pushed w))"
proof -
  obtain dropped ms e where "pushed w = taken w @ dropped @ m_queue w" "taken w = ms @ [e]"
    "no_exit ms" "msg_type e = MSG_EXIT_THREAD" "ran w = callbacks ms"
    using assms by (auto simp: worker_inv_def queue_ok_def taken_ok_def)
  then show ?thesis by (simp add: before_exit_append)
qed

lemma ran_prefix:
  assumes "worker_inv w"
  shows "prefix (ran w) (callbacks (before_exit (pushed w)))"
proof -
  from assms obtain dropped where pushed: "pushed w = taken w @ dropped @ m_queue w"
    by (auto simp: worker_inv_def queue_ok_def)
  from assms obtain ms ms' where "taken w = ms @ ms'" "no_exit ms" "ran w = callbacks ms"
    using taken_split [of w] by (auto simp: worker_inv_def)
  with pushed show ?thesis by (simp add: before_exit_append)
qed

lemma pushed_step: "worker_step w w' \<Longrightarrow> prefix (pushed w) (pushed w')"
  by (elim worker_stepE)
    (auto simp: step_simps split: list.split MsgType.split option.split)

lemma pushed_steps: "worker_step\<^sup>*\<^sup>* w w' \<Longrightarrow> prefix (pushed w) (pushed w')"
  by (induction rule: rtranclp_induct) (auto dest: pushed_step intro: prefix_order.trans)

text \<open>
  A run for the witnesses: the thread is created, one callback is posted, the exit message and one
  more callback follow, and the worker goes through \<open>Process\<close> to its end.
\<close>

definition demo_queued :: "nat worker" where
  "demo_queued =
     PostMsg (Some 6) (ExitThread (PostMsg (Some 5) (snd (CreateThread 7 (WorkerThread False ''w'')))))"

definition demo_returned :: "nat worker" where
  "demo_returned =
     Process_finish (TimerThread_test
       (Process_handle \<lparr>msg_type = MSG_EXIT_THREAD, msg_callback = None\<rparr> (Process_take
         (Process_handle \<lparr>msg_type = MSG_POST_USER_DATA, msg_callback = Some 5\<rparr> (Process_take
           (Process_start demo_queued))))))"

lemmas demo_defs = demo_queued_def demo_returned_def WorkerThread_def push_msg_def notify_one_def worker_op_defs

lemma steps_snoc: "worker_step\<^sup>*\<^sup>* a b \<Longrightarrow> worker_step b c \<Longrightarrow> worker_step\<^sup>*\<^sup>* a c"
  by (rule rtranclp.rtrancl_into_rtrancl)

lemma demo_queued_reachable: "worker_step\<^sup>*\<^sup>* (WorkerThread False ''w'') demo_queued"
  unfolding demo_queued_def
  by (rule steps_snoc [OF _ worker_step.post], rule steps_snoc [OF _ worker_step.exit],
      rule steps_snoc [OF _ worker_step.post], rule steps_snoc [OF _ worker_step.create],
      rule rtranclp.rtrancl_refl)

lemma demo_returned_steps: "worker_step\<^sup>*\<^sup>* demo_queued demo_returned"
  unfolding demo_returned_def
  by (rule steps_snoc [OF _ worker_step.finish], rule steps_snoc [OF _ worker_step.timer_test],
      rule steps_snoc [OF _ worker_step.handle], rule steps_snoc [OF _ worker_step.take_msg],
      rule steps_snoc [OF _ worker_step.handle], rule steps_snoc [OF _ worker_step.take_msg],
      rule steps_snoc [OF _ worker_step.start], rule rtranclp.rtrancl_refl)
    (simp_all add: demo_defs)

lemma demo_returned_reachable: "worker_step\<^sup>*\<^sup>* (WorkerThread False ''w'') demo_returned"
  using demo_queued_reachable demo_returned_steps by (rule rtranclp_trans)

lemma demo_start: "worker_start (WorkerThread False ''w'')"
  by (auto simp: worker_start_def)

text \<open>
  Under every interleaving of clients, worker and timer, the callbacks that have run are, in
  order, an initial part of the callbacks that were posted before the first exit message: none is
  reordered, duplicated or skipped, and none that was posted after an exit message is run.
\<close>

theorem worker_fifo:
  assumes "worker_start w0" and "worker_step\<^sup>*\<^sup>* w0 w"
  shows "prefix (ran w) (callbacks (before_exit (pushed w)))"
  using worker.inv_reachable [OF assms] by (rule ran_prefix)

theorem worker_fifo_witness: "prefix (ran demo_queued) (callbacks (before_exit (pushed demo_queued)))"
  using worker_fifo [OF demo_start demo_queued_reachable] .

text \<open>
  C15 Once \<open>Process\<close> has returned, exactly the callbacks posted before the first exit message
  have run, each once and in order, and whatever clients do afterwards, nothing runs any more and
  the destructor's join returns.
\<close>

theorem worker_exit_complete:
  assumes "worker_start w0" and "worker_step\<^sup>*\<^sup>* w0 w" and "w_pc w = W_Returned"
    and "worker_step\<^sup>*\<^sup>* w w'"
  shows "ran w' = callbacks (before_exit (pushed w)) \<and> w_pc w' = W_Returned \<and>
    WorkerThread_destroy w' \<noteq> None"
proof -
  have inv: "worker_inv w" using assms(1,2) by (rule worker.inv_reachable)
  with returned_stays [OF assms(4)] returned_ran [OF inv] assms(3) show ?thesis
    by (simp add: worker_inv_def WorkerThread_destroy_def)
qed

theorem worker_exit_complete_witness:
  "w_pc demo_returned = W_Returned \<and> ran (PostMsg (Some 9) demo_returned) = [5]"
proof -
  have pc: "w_pc demo_returned = W_Returned" by (simp add: demo_defs)
  have "ran (PostMsg (Some 9) demo_returned) = callbacks (before_exit (pushed demo_returned))"
    using worker_exit_complete [OF demo_start demo_returned_reachable pc
        r_into_rtranclp [of worker_step, OF worker_step.post]] by simp
  with pc show ?thesis by (simp add: demo_defs)
qed

text \<open>
  C16 The shutdown protocol cannot block: from every reachable state of a created worker in which
  no client has posted an empty function, after \<open>ExitThread\<close> the worker can run to its return:
  the timer thread, wherever it is, can finish, so the join of the timer and the join of the
  destructor return.
\<close>

theorem worker_exit_possible:
  assumes "worker_start w0" and "worker_step\<^sup>*\<^sup>* w0 w" and "m_thread w \<noteq> None"
    and "list_all has_callback (pushed w)"
  shows "\<exists>w'. worker_step\<^sup>*\<^sup>* (ExitThread w) w' \<and> w_pc w' = W_Returned \<and>
    WorkerThread_destroy w' \<noteq> None"
proof -
  have inv: "worker_inv w" using assms(1,2) by (rule worker.inv_reachable)
  with assms(3) have "w_pc w \<noteq> W_NotCreated" by (auto simp: worker_inv_def threads_ok_def)
  from exit_returns [OF inv this assms(4)] show ?thesis
    by (auto simp: WorkerThread_destroy_def)
qed

theorem worker_exit_possible_witness:
  "\<exists>w'. worker_step\<^sup>*\<^sup>* (ExitThread demo_queued) w' \<and> w_pc w' = W_Returned \<and>
    WorkerThread_destroy w' \<noteq> None"
  by (rule worker_exit_possible [OF demo_start demo_queued_reachable])
    (simp_all add: demo_defs has_callback_def)

end
