(* ===== verification/ThreadedClass.thy ===== *)
theory ThreadedClass
  imports WorkerThread
begin

text \<open>
  \<open>ThreadedClass\<close> (\<open>lib/threadedclass.h\<close>): an object whose methods run on a thread of its
  own. A method starts with \<open>checkThread\<close>, which either lets the call go on (already on the
  object's thread) or posts a closure of the same call to the event loop. The class is a template
  over the event loop, so the model takes the loop's two operations as arguments, the contract they
  must meet is the locale \<open>event_loop\<close>, and \<open>WorkerThread\<close> is shown to meet it. A closure
  \<open>[c, fnc, t](){ ((*c).*fnc)(t); }\<close> is the application of \<open>fnc\<close> to what it captures.
\<close>

section \<open>Operations\<close>

text \<open>The constructor names the thread and creates it; the destructor posts the exit message.\<close>

definition ThreadedClass :: "bool \<Rightarrow> thread_id \<Rightarrow> string \<Rightarrow> 'f worker" where
  "ThreadedClass uninit fresh threadName = snd (CreateThread fresh (WorkerThread uninit threadName))"

definition ThreadedClass_destroy :: "'f worker \<Rightarrow> 'f worker" where
  "ThreadedClass_destroy thread = ExitThread thread"

definition threadName :: "'f worker \<Rightarrow> string" where
  "threadName thread = THREAD_NAME thread"

definition isSameThread :: "('l \<Rightarrow> thread_id option) \<Rightarrow> thread_id \<Rightarrow> 'l \<Rightarrow> bool" where
  "isSameThread getId this_thread thread \<longleftrightarrow> Some this_thread = getId thread"

definition checkThread0 ::
  "('l \<Rightarrow> thread_id option) \<Rightarrow> ('f option \<Rightarrow> 'l \<Rightarrow> 'l) \<Rightarrow> thread_id \<Rightarrow> 'c \<Rightarrow> ('c \<Rightarrow> 'f) \<Rightarrow> 'l \<Rightarrow> bool \<times> 'l" where
  "checkThread0 getId post this_thread c fnc thread =
     (let sameThread = isSameThread getId this_thread thread
      in if \<not> sameThread then (sameThread, post (Some (fnc c)) thread) else (sameThread, thread))"

definition checkThread1 ::
  "('l \<Rightarrow> thread_id option) \<Rightarrow> ('f option \<Rightarrow> 'l \<Rightarrow> 'l) \<Rightarrow> thread_id \<Rightarrow> 'c \<Rightarrow> ('c \<Rightarrow> 't \<Rightarrow> 'f) \<Rightarrow> 't \<Rightarrow>
   'l \<Rightarrow> bool \<times> 'l" where
  "checkThread1 getId post this_thread c fnc t thread =
     (let sameThread = isSameThread getId this_thread thread
      in if \<not> sameThread then (sameThread, post (Some (fnc c t)) thread) else (sameThread, thread))"

definition checkThread2 ::
  "('l \<Rightarrow> thread_id option) \<Rightarrow> ('f option \<Rightarrow> 'l \<Rightarrow> 'l) \<Rightarrow> thread_id \<Rightarrow> 'c \<Rightarrow> ('c \<Rightarrow> 't \<Rightarrow> 't1 \<Rightarrow> 'f) \<Rightarrow>
   't \<Rightarrow> 't1 \<Rightarrow> 'l \<Rightarrow> bool \<times> 'l" where
  "checkThread2 getId post this_thread c fnc t t1 thread =
     (let sameThread = isSameThread getId this_thread thread
      in if \<not> sameThread then (sameThread, post (Some (fnc c t t1)) thread) else (sameThread, thread))"

definition checkThread3 ::
  "('l \<Rightarrow> thread_id option) \<Rightarrow> ('f option \<Rightarrow> 'l \<Rightarrow> 'l) \<Rightarrow> thread_id \<Rightarrow> 'c \<Rightarrow>
   ('c \<Rightarrow> 't \<Rightarrow> 't1 \<Rightarrow> 't2 \<Rightarrow> 'f) \<Rightarrow> 't \<Rightarrow> 't1 \<Rightarrow> 't2 \<Rightarrow> 'l \<Rightarrow> bool \<times> 'l" where
  "checkThread3 getId post this_thread c fnc t t1 t2 thread =
     (let sameThread = isSameThread getId this_thread thread
      in if \<not> sameThread then (sameThread, post (Some (fnc c t t1 t2)) thread)
         else (sameThread, thread))"

section \<open>The contract of an event loop\<close>

locale event_loop =
  fixes getId :: "'l \<Rightarrow> thread_id option"
    and post :: "'f option \<Rightarrow> 'l \<Rightarrow> 'l"
    and pending :: "'l \<Rightarrow> 'f list"
  assumes getId_post: "getId (post data l) = getId l"
    and pending_post: "pending (post (Some f) l) = pending l @ [f]"
begin

lemma same_thread:
  assumes "getId l = Some me"
  shows "checkThread0 getId post me c f0 l = (True, l)"
    "checkThread1 getId post me c f1 t l = (True, l)"
    "checkThread2 getId post me c f2 t t1 l = (True, l)"
    "checkThread3 getId post me c f3 t t1 t2 l = (True, l)"
  using assms
  by (simp_all add: checkThread0_def checkThread1_def checkThread2_def checkThread3_def
      isSameThread_def)

lemma other_thread:
  assumes "getId l \<noteq> Some me"
  shows "checkThread0 getId post me c f0 l = (False, post (Some (f0 c)) l)"
    "checkThread1 getId post me c f1 t l = (False, post (Some (f1 c t)) l)"
    "checkThread2 getId post me c f2 t t1 l = (False, post (Some (f2 c t t1)) l)"
    "checkThread3 getId post me c f3 t t1 t2 l = (False, post (Some (f3 c t t1 t2)) l)"
  using assms
  by (auto simp: checkThread0_def checkThread1_def checkThread2_def checkThread3_def
      isSameThread_def)

text \<open>A call goes on or is queued behind what is pending, and never both.\<close>

lemma checkThread3_cases:
  "(getId l = Some me \<and> checkThread3 getId post me c f3 t t1 t2 l = (True, l)) \<or>
   (getId l \<noteq> Some me \<and> fst (checkThread3 getId post me c f3 t t1 t2 l) = False \<and>
    pending (snd (checkThread3 getId post me c f3 t t1 t2 l)) = pending l @ [f3 c t t1 t2])"
  by (cases "getId l = Some me") (simp_all add: same_thread other_thread pending_post)

end

interpretation worker_loop: event_loop GetThreadId PostMsg "\<lambda>w. callbacks (m_queue w)"
  by unfold_locales (simp_all add: GetThreadId_def PostMsg_def)

section \<open>Properties\<close>

text \<open>
  A method of a threaded object that is called from another thread returns at once, and its call
  is neither lost nor reordered: if no exit message was posted before it, then whenever the
  worker has returned, everything posted earlier and then this call have run, in that order.
\<close>

theorem checkThread_call_runs:
  assumes "worker_start w0" and "worker_step\<^sup>*\<^sup>* w0 w" and "no_exit (pushed w)"
    and "GetThreadId w \<noteq> Some me"
    and "checkThread3 GetThreadId PostMsg me c fnc t t1 t2 w = (sameThread, w1)"
    and "worker_step\<^sup>*\<^sup>* w1 w2" and "w_pc w2 = W_Returned"
  shows "\<not> sameThread \<and> prefix (callbacks (pushed w) @ [fnc c t t1 t2]) (ran w2)"
proof -
  let ?m = "\<lparr>msg_type = MSG_POST_USER_DATA, msg_callback = Some (fnc c t t1 t2)\<rparr>"
  have w1: "\<not> sameThread" "w1 = PostMsg (Some (fnc c t t1 t2)) w"
    using assms(5) by (simp_all add: worker_loop.other_thread(4) [OF assms(4)])
  have "worker_step\<^sup>*\<^sup>* w0 w2"
    using assms(2,6) steps_snoc [OF assms(2) worker_step.post] unfolding w1(2)
    by (meson rtranclp_trans)
  then have "ran w2 = callbacks (before_exit (pushed w2))"
    using worker.inv_reachable [OF assms(1)] assms(7) by (intro returned_ran)
  moreover obtain r where "pushed w2 = (pushed w @ [?m]) @ r"
    using pushed_steps [OF assms(6)] w1(2) by (auto simp: PostMsg_def elim: prefixE)
  ultimately show ?thesis
    using assms(3) w1(1) before_exit_append [of "pushed w @ [?m]" r] by simp
qed

theorem checkThread_call_runs_witness:
  "\<not> fst (checkThread3 GetThreadId PostMsg 1 (0 :: nat) (\<lambda>c t t1 t2. c + t + t1 + t2) 1 2 2
       (snd (CreateThread 7 (WorkerThread False ''w'')))) \<and>
   prefix [5] (ran demo_returned)"
proof -
  let ?c = "snd (CreateThread 7 (WorkerThread False ''w'')) :: nat worker"
  let ?p = "checkThread3 GetThreadId PostMsg 1 (0 :: nat) (\<lambda>c t t1 t2. c + t + t1 + t2) 1 2 2 ?c"
  have p: "snd ?p = PostMsg (Some 5) ?c"
    by (simp add: checkThread3_def isSameThread_def GetThreadId_def demo_defs)
  have create: "worker_step\<^sup>*\<^sup>* (WorkerThread False ''w'') ?c"
    by (rule r_into_rtranclp [of worker_step, OF worker_step.create])
  have "worker_step\<^sup>*\<^sup>* (snd ?p) demo_queued"
    unfolding p demo_queued_def
    by (rule steps_snoc [OF _ worker_step.post], rule steps_snoc [OF _ worker_step.exit],
        rule rtranclp.rtrancl_refl)
  then have run: "worker_step\<^sup>*\<^sup>* (snd ?p) demo_returned"
    using demo_returned_steps by (rule rtranclp_trans)
  show ?thesis
    using checkThread_call_runs [OF demo_start create _ _ prod.collapse [symmetric] run]
    by (simp add: demo_defs GetThreadId_def)
qed
end
