(* ===== verification/CppStd.thy ===== *)
theory CppStd
  imports Prelude
begin

text \<open>
  What the framework uses of the C++ standard library: \<open>std::istringstream\<close> with
  \<open>peek\<close>, \<open>get\<close> and \<open>eof\<close>, \<open>std::string::find\<close> and \<open>replace\<close>,
  \<open>std::to_string\<close> on an \<open>int\<close> and \<open>std::stoi\<close>. These definitions have no
  entry in the source map: they are the language's library, not code of the repository.
\<close>

section \<open>Input string streams\<close>

text \<open>
  The state of a string stream is what is left to read and its \<open>eofbit\<close>. \<open>peek\<close> and
  \<open>get\<close> return \<open>EOF\<close> (here \<open>None\<close>) exactly when nothing is left, and then set the
  \<open>eofbit\<close>; \<open>eof()\<close> reads that bit only, so a stream whose last character has just
  been read is not yet at \<open>eof()\<close>.
\<close>

record istream =
  unread :: string
  eofbit :: bool

definition istringstream :: "string \<Rightarrow> istream" where
  "istringstream s = \<lparr>unread = s, eofbit = False\<rparr>"

definition stream_peek :: "istream \<Rightarrow> char option \<times> istream" where
  "stream_peek st = (case unread st of
       [] \<Rightarrow> (None, st\<lparr>eofbit := True\<rparr>)
     | c # _ \<Rightarrow> (Some c, st))"

definition stream_get :: "istream \<Rightarrow> char option \<times> istream" where
  "stream_get st = (case unread st of
       [] \<Rightarrow> (None, st\<lparr>eofbit := True\<rparr>)
     | c # cs \<Rightarrow> (Some c, st\<lparr>unread := cs\<rparr>))"

abbreviation stream_at :: "string \<Rightarrow> istream" where
  "stream_at s \<equiv> \<lparr>unread = s, eofbit = False\<rparr>"

abbreviation stream_end :: istream where
  "stream_end \<equiv> \<lparr>unread = [], eofbit = True\<rparr>"

lemma stream_peek_simps [simp]:
  "stream_peek \<lparr>unread = [], eofbit = b\<rparr> = (None, \<lparr>unread = [], eofbit = True\<rparr>)"
  "stream_peek \<lparr>unread = c # cs, eofbit = b\<rparr> = (Some c, \<lparr>unread = c # cs, eofbit = b\<rparr>)"
  by (simp_all add: stream_peek_def)

lemma stream_get_simps [simp]:
  "stream_get \<lparr>unread = [], eofbit = b\<rparr> = (None, \<lparr>unread = [], eofbit = True\<rparr>)"
  "stream_get \<lparr>unread = c # cs, eofbit = b\<rparr> = (Some c, \<lparr>unread = cs, eofbit = b\<rparr>)"
  by (simp_all add: stream_get_def)

lemma stream_get_None_iff: "fst (stream_get st) = None \<longleftrightarrow> unread st = []"
  by (simp add: stream_get_def split: list.split)

lemma stream_get_unread: "unread (snd (stream_get st)) = tl (unread st)"
  by (simp add: stream_get_def split: list.split)

lemma stream_peek_unread: "unread (snd (stream_peek st)) = unread st"
  by (simp add: stream_peek_def split: list.split)

section \<open>Searching and replacing in strings\<close>

fun find_here :: "string \<Rightarrow> string \<Rightarrow> nat option" where
  "find_here [] search = (if search = [] then Some 0 else None)"
| "find_here (c # cs) search =
     (if prefix search (c # cs) then Some 0 else map_option Suc (find_here cs search))"

definition str_find :: "string \<Rightarrow> string \<Rightarrow> nat \<Rightarrow> nat option" where
  "str_find subject search pos =
     (if length subject < pos then None
      else map_option (\<lambda>i. pos + i) (find_here (drop pos subject) search))"

definition str_replace :: "string \<Rightarrow> nat \<Rightarrow> nat \<Rightarrow> string \<Rightarrow> string" where
  "str_replace subject pos len rep = take pos subject @ rep @ drop (pos + len) subject"

lemma find_here_prefix: "prefix search s \<Longrightarrow> find_here s search = Some 0"
  by (cases s) auto

lemma str_find_at: "str_find (pre @ s) search (length pre) = map_option (\<lambda>i. length pre + i) (find_here s search)"
  by (simp add: str_find_def)

lemma str_find_skip:
  "\<not> prefix search (c # cs) \<Longrightarrow>
   str_find (pre @ c # cs) search (length pre) = str_find ((pre @ [c]) @ cs) search (length (pre @ [c]))"
  unfolding str_find_at by (cases "find_here cs search") simp_all

section \<open>Printing and parsing integers\<close>

definition digit_char :: "nat \<Rightarrow> char" where
  "digit_char d = char_of (48 + d)"

definition is_digit :: "char \<Rightarrow> bool" where
  "is_digit c \<longleftrightarrow> 48 \<le> (of_char c :: nat) \<and> (of_char c :: nat) \<le> 57"

definition digit_value :: "char \<Rightarrow> nat" where
  "digit_value c = of_char c - 48"

fun nat_to_string :: "nat \<Rightarrow> string" where
  "nat_to_string n =
     (if n < 10 then [digit_char n] else nat_to_string (n div 10) @ [digit_char (n mod 10)])"

declare nat_to_string.simps [simp del]

definition to_string :: "int \<Rightarrow> string" where
  "to_string i = (if i < 0 then CHR ''-'' # nat_to_string (nat (- i)) else nat_to_string (nat i))"

definition is_space :: "char \<Rightarrow> bool" where
  "is_space c \<longleftrightarrow> c = CHR '' '' \<or> (9 \<le> (of_char c :: nat) \<and> (of_char c :: nat) \<le> 13)"

definition digits_value :: "string \<Rightarrow> nat" where
  "digits_value ds = foldl (\<lambda>a c. a * 10 + digit_value c) 0 ds"

definition int_min :: int where "int_min = - (2 ^ 31)"
definition int_max :: int where "int_max = 2 ^ 31 - 1"

definition stoi_digits :: "bool \<Rightarrow> string \<Rightarrow> int res" where
  "stoi_digits neg s =
     (let ds = takeWhile is_digit s;
          v = (if neg then - int (digits_value ds) else int (digits_value ds))
      in if ds = [] then Inl Invalid_argument
         else if v < int_min \<or> int_max < v then Inl Out_of_range
         else Inr v)"

text \<open>
  \<open>std::stoi\<close> skips white space, accepts one sign, reads the longest run of decimal digits and
  ignores what follows it; it throws when there is no digit and when the value is no \<open>int\<close>.
\<close>

definition stoi :: "string \<Rightarrow> int res" where
  "stoi s = (case dropWhile is_space s of
       [] \<Rightarrow> Inl Invalid_argument
     | c # cs \<Rightarrow> if c = CHR ''-'' then stoi_digits True cs
                else if c = CHR ''+'' then stoi_digits False cs
                else stoi_digits False (c # cs))"

lemma of_char_digit_char: "d < 10 \<Longrightarrow> (of_char (digit_char d) :: nat) = 48 + d"
  by (simp add: digit_char_def)

lemma is_digit_digit_char [simp]: "d < 10 \<Longrightarrow> is_digit (digit_char d)"
  by (simp add: is_digit_def of_char_digit_char)

lemma digit_value_digit_char [simp]: "d < 10 \<Longrightarrow> digit_value (digit_char d) = d"
  by (simp add: digit_value_def of_char_digit_char)

lemma digits_value_snoc: "digits_value (ds @ [d]) = digits_value ds * 10 + digit_value d"
  by (simp add: digits_value_def)

lemma nat_to_string_digits: "\<forall>c\<in>set (nat_to_string n). is_digit c"
proof (induction n rule: nat_to_string.induct)
  case (1 n)
  then show ?case by (subst nat_to_string.simps) auto
qed

lemma nat_to_string_nonempty [simp]: "nat_to_string n \<noteq> []"
  by (subst nat_to_string.simps) simp

lemma digits_value_nat_to_string: "digits_value (nat_to_string n) = n"
proof (induction n rule: nat_to_string.induct)
  case (1 n)
  show ?case
  proof (cases "n < 10")
    case True
    then show ?thesis
      by (subst nat_to_string.simps) (simp add: digits_value_def)
  next
    case False
    with 1 show ?thesis
      by (subst nat_to_string.simps) (simp add: digits_value_snoc)
  qed
qed

lemma is_digit_not_space: "is_digit c \<Longrightarrow> \<not> is_space c"
  by (auto simp: is_digit_def is_space_def)

lemma is_digit_not_special:
  assumes "is_digit c"
  shows "c \<noteq> CHR ''-''" "c \<noteq> CHR ''+''" "c \<noteq> CHR '',''" "c \<noteq> CHR 0x22" "c \<noteq> CHR ''[''"
    "c \<noteq> CHR '']''" "c \<noteq> CHR ''{''" "c \<noteq> CHR ''}''"
  using assms by (auto simp: is_digit_def)

lemma stoi_digits_nat_to_string:
  "stoi_digits neg (nat_to_string n) =
     (let v = (if neg then - int n else int n)
      in if v < int_min \<or> int_max < v then Inl Out_of_range else Inr v)"
  using nat_to_string_digits [of n]
  by (simp add: stoi_digits_def takeWhile_all digits_value_nat_to_string Let_def)

lemma stoi_nat_to_string: "stoi (nat_to_string n) = stoi_digits False (nat_to_string n)"
proof -
  obtain c cs where s: "nat_to_string n = c # cs"
    by (cases "nat_to_string n") auto
  then have "is_digit c"
    using nat_to_string_digits [of n] by simp
  with s show ?thesis
    by (simp add: stoi_def is_digit_not_space is_digit_not_special)
qed

lemma stoi_to_string:
  assumes "int_min \<le> i" and "i \<le> int_max"
  shows "stoi (to_string i) = Inr i"
proof (cases "i < 0")
  case True
  then have "stoi (to_string i) = stoi_digits True (nat_to_string (nat (- i)))"
    by (simp add: to_string_def stoi_def is_space_def)
  with True assms show ?thesis by (simp add: stoi_digits_nat_to_string Let_def)
next
  case False
  with assms show ?thesis
    by (simp add: to_string_def stoi_nat_to_string stoi_digits_nat_to_string Let_def)
qed

lemma to_string_chars: "c \<in> set (to_string i) \<Longrightarrow> is_digit c \<or> c = CHR ''-''"
  using nat_to_string_digits by (auto simp: to_string_def split: if_splits)

lemma to_string_nonempty [simp]: "to_string i \<noteq> []"
  by (simp add: to_string_def)

end
