(* ===== verification/Serialisation.thy ===== *)
theory Serialisation
  imports CppStd
begin

text \<open>
  The text format of the framework (\<open>lib/serialisation.h\<close>, \<open>lib/serialisation.cpp\<close>):
  writing values to an output stream, the tokenizer \<open>nextToken\<close>, and reading values back.
  An output stream is the string written so far. The overload set \<open>serialize\<close> /
  \<open>deserialize\<close> that C++ resolves on the static type is one function over a datatype of
  values and a datatype of types; an object is its list of fields in the order in which its class
  passes them to \<open>ObjectSer\<close> and \<open>ObjectDeser\<close>.
\<close>

section \<open>Replacing a substring\<close>

text \<open>
  The loop of \<open>replaceInString\<close>. It does not stop for an empty search string, so it is a
  partial function: \<open>None\<close> is \<open>does not return\<close>.
\<close>

partial_function (option) replace_loop :: "string \<Rightarrow> string \<Rightarrow> string \<Rightarrow> nat \<Rightarrow> string option" where
  "replace_loop subject search rep pos =
     (case str_find subject search pos of
        None \<Rightarrow> Some subject
      | Some p \<Rightarrow>
          replace_loop (str_replace subject p (length search) rep) search rep (p + length rep))"

definition replaceInString :: "string \<Rightarrow> string \<Rightarrow> string \<Rightarrow> string option" where
  "replaceInString subject search rep = replace_loop subject search rep 0"

section \<open>Writing\<close>

abbreviation dquote :: char where "dquote \<equiv> CHR 0x22"
abbreviation backslash :: char where "backslash \<equiv> CHR 0x5C"

datatype cpp_type = TInt | TString | TVector cpp_type | TObject "cpp_type list"

datatype cpp_value =
    VInt u32
  | VString string
  | VVector "cpp_value list"
  | VObject "cpp_value list"

definition serialize_int :: "string \<Rightarrow> u32 \<Rightarrow> string" where
  "serialize_int out d = out @ to_string (sint d)"

definition serialize_string :: "string \<Rightarrow> string \<Rightarrow> string" where
  "serialize_string out str =
     out @ [dquote] @ the (replaceInString str [dquote] [backslash, dquote]) @ [dquote]"

fun sequence_loop :: "(string \<Rightarrow> 'a \<Rightarrow> string) \<Rightarrow> string \<Rightarrow> bool \<Rightarrow> 'a list \<Rightarrow> string" where
  "sequence_loop ser out first [] = out"
| "sequence_loop ser out first (elem # vec) =
     sequence_loop ser (ser (if \<not> first then out @ '','' else out) elem) False vec"

definition serializeSequence :: "(string \<Rightarrow> 'a \<Rightarrow> string) \<Rightarrow> string \<Rightarrow> 'a list \<Rightarrow> string" where
  "serializeSequence ser out vec = sequence_loop ser (out @ ''['') True vec @ '']''"

text \<open>A \<open>std::set\<close> is iterated in ascending order.\<close>

definition serialize_set :: "(string \<Rightarrow> 'a::linorder \<Rightarrow> string) \<Rightarrow> string \<Rightarrow> 'a set \<Rightarrow> string" where
  "serialize_set ser out s = serializeSequence ser out (sorted_list_of_set s)"

record object_ser =
  os_first :: bool
  os_out :: string

definition ObjectSer :: "string \<Rightarrow> object_ser" where
  "ObjectSer out = \<lparr>os_first = True, os_out = out @ ''{''\<rparr>"

definition ObjectSer_put :: "(string \<Rightarrow> 'a \<Rightarrow> string) \<Rightarrow> object_ser \<Rightarrow> 'a \<Rightarrow> object_ser" where
  "ObjectSer_put ser obj t =
     (if \<not> os_first obj then obj\<lparr>os_out := ser (os_out obj @ '','') t\<rparr>
      else \<lparr>os_first = False, os_out = ser (os_out obj) t\<rparr>)"

text \<open>The destructor writes the closing brace.\<close>

definition ObjectSer_destroy :: "object_ser \<Rightarrow> string" where
  "ObjectSer_destroy obj = os_out obj @ ''}''"

lemma sequence_loop_cong [fundef_cong]:
  "out = out' \<Longrightarrow> first = first' \<Longrightarrow> vec = vec' \<Longrightarrow> (\<And>o' x. x \<in> set vec' \<Longrightarrow> ser o' x = ser' o' x) \<Longrightarrow>
   sequence_loop ser out first vec = sequence_loop ser' out' first' vec'"
proof -
  assume eqs: "out = out'" "first = first'" "vec = vec'"
    and ser: "\<And>o' x. x \<in> set vec' \<Longrightarrow> ser o' x = ser' o' x"
  from ser have "sequence_loop ser out' first' vec' = sequence_loop ser' out' first' vec'"
    by (induction vec' arbitrary: out' first') auto
  with eqs show ?thesis by simp
qed

lemma serializeSequence_cong [fundef_cong]:
  "out = out' \<Longrightarrow> vec = vec' \<Longrightarrow> (\<And>o' x. x \<in> set vec' \<Longrightarrow> ser o' x = ser' o' x) \<Longrightarrow>
   serializeSequence ser out vec = serializeSequence ser' out' vec'"
  unfolding serializeSequence_def by (simp cong: sequence_loop_cong)

lemma ObjectSer_put_cong [fundef_cong]:
  "obj = obj' \<Longrightarrow> t = t' \<Longrightarrow> (\<And>o'. ser o' t' = ser' o' t') \<Longrightarrow>
   ObjectSer_put ser obj t = ObjectSer_put ser' obj' t'"
  by (simp add: ObjectSer_put_def)

fun serialize :: "string \<Rightarrow> cpp_value \<Rightarrow> string" where
  "serialize out (VInt d) = serialize_int out d"
| "serialize out (VString s) = serialize_string out s"
| "serialize out (VVector vec) = serializeSequence (\<lambda>o' e. serialize o' e) out vec"
| "serialize out (VObject fs) =
     ObjectSer_destroy
       (foldl (\<lambda>obj f. ObjectSer_put (\<lambda>o' e. serialize o' e) obj f) (ObjectSer out) fs)"

section \<open>Reading\<close>

function scope_loop ::
  "char \<Rightarrow> char \<Rightarrow> string \<Rightarrow> nat \<Rightarrow> char option \<Rightarrow> istream \<Rightarrow> string \<times> istream" where
  "scope_loop startBrace endBrace ret scopeDepth c st =
     (case c of
        None \<Rightarrow> (ret, st)
      | Some ch \<Rightarrow>
          if scopeDepth > 0
          then scope_loop startBrace endBrace (ret @ [ch])
                 (if ch = startBrace then scopeDepth + 1
                  else if ch = endBrace then scopeDepth - 1 else scopeDepth)
                 (fst (stream_get st)) (snd (stream_get st))
          else (ret, st))"
  by pat_completeness auto
termination
  by (relation "measure (\<lambda>(_, _, _, _, c, st). length (unread st) + (if c = None then 0 else 1))")
    (auto simp: stream_get_def split: list.splits)

function quote_loop :: "string \<Rightarrow> bool \<Rightarrow> char option \<Rightarrow> istream \<Rightarrow> string \<times> istream" where
  "quote_loop ret hadBackSlash c st =
     (case c of
        None \<Rightarrow> (ret, st)
      | Some ch \<Rightarrow>
          if \<not> (ch = dquote \<and> \<not> hadBackSlash)
          then quote_loop (ret @ [ch]) (ch = backslash) (fst (stream_get st)) (snd (stream_get st))
          else (ret, st))"
  by pat_completeness auto
termination
  by (relation "measure (\<lambda>(_, _, c, st). length (unread st) + (if c = None then 0 else 1))")
    (auto simp: stream_get_def split: list.splits)

function plain_loop :: "string \<Rightarrow> char option \<Rightarrow> istream \<Rightarrow> string \<times> istream" where
  "plain_loop ret c st =
     (case c of
        None \<Rightarrow> (ret, st)
      | Some ch \<Rightarrow>
          if ch \<noteq> CHR '',''
          then plain_loop (ret @ [ch]) (fst (stream_get st)) (snd (stream_get st))
          else (ret, st))"
  by pat_completeness auto
termination
  by (relation "measure (\<lambda>(_, c, st). length (unread st) + (if c = None then 0 else 1))")
    (auto simp: stream_get_def split: list.splits)

declare scope_loop.simps [simp del] quote_loop.simps [simp del] plain_loop.simps [simp del]

text \<open>\<open>if (in.peek() == ',') in.get();\<close>\<close>

definition skip_comma :: "istream \<Rightarrow> istream" where
  "skip_comma st =
     (let (c, st1) = stream_peek st in if c = Some (CHR '','') then snd (stream_get st1) else st1)"

definition nextToken :: "istream \<Rightarrow> string \<times> istream" where
  "nextToken st =
     (case stream_peek st of
        (None, st1) \<Rightarrow> ([], st1)
      | (Some c, st1) \<Rightarrow>
          if c = CHR ''['' \<or> c = CHR ''{'' then
            let endBrace = (if c = CHR ''['' then CHR '']'' else CHR ''}'');
                (_, st2) = stream_get st1;
                (c', st3) = stream_get st2;
                (ret, st4) = scope_loop c endBrace [c] 1 c' st3
            in (ret, skip_comma st4)
          else if c = dquote then
            let (_, st2) = stream_get st1;
                (c', st3) = stream_get st2;
                (ret, st4) = quote_loop [] False c' st3
            in (ret, skip_comma st4)
          else
            let (c', st2) = stream_get st1 in plain_loop [] c' st2)"

definition deserialize_int :: "istream \<Rightarrow> (u32 \<times> istream) res" where
  "deserialize_int st =
     (let (str, st1) = nextToken st in res_bind (stoi str) (\<lambda>k. Inr (word_of_int k, st1)))"

definition deserialize_string :: "istream \<Rightarrow> (string \<times> istream) res" where
  "deserialize_string st = Inr (nextToken st)"

text \<open>\<open>std::string::pop_back\<close>, which must not be called on an empty string.\<close>

definition pop_back :: "string \<Rightarrow> string res" where
  "pop_back s = (if s = [] then Inl Out_of_bounds else Inr (butlast s))"

lemma pop_back_simps [simp]: "s \<noteq> [] \<Longrightarrow> pop_back s = Inr (butlast s)" "pop_back (c # s) = Inr (butlast (c # s))"
  by (simp_all add: pop_back_def)

text \<open>
  The constructor of \<open>ObjectDeser\<close>: the stream \<open>_in\<close> over the fields, and what is left of
  the stream it was read from.
\<close>

definition ObjectDeser :: "istream \<Rightarrow> (istream \<times> istream) res" where
  "ObjectDeser st =
     (let (objData, st1) = nextToken st
      in if length objData > 2
         then res_bind (pop_back objData) (\<lambda>objData. Inr (snd (stream_get (istringstream objData)), st1))
         else Inr (istringstream [], st1))"

text \<open>The token is longer than two characters when its last one is removed, so that never fails.\<close>

lemma ObjectDeser_total:
  obtains inn st1 where "ObjectDeser st = Inr (inn, st1)"
proof (cases "length (fst (nextToken st)) > 2")
  case True
  then have "fst (nextToken st) \<noteq> []" by auto
  with True that show ?thesis by (simp add: ObjectDeser_def split_beta)
qed (use that in \<open>simp add: ObjectDeser_def split_beta\<close>)

definition stream_size :: "istream \<Rightarrow> nat" where
  "stream_size st = length (unread st) + (if eofbit st then 0 else 1)"

lemma scope_loop_unread:
  "length (unread (snd (scope_loop sb eb ret d c st))) \<le> length (unread st)"
proof (induction sb eb ret d c st rule: scope_loop.induct)
  case (1 sb eb ret d c st)
  then show ?case
    by (subst scope_loop.simps)
      (fastforce simp: stream_get_unread split: option.split intro: order_trans)
qed

lemma quote_loop_unread: "length (unread (snd (quote_loop ret b c st))) \<le> length (unread st)"
proof (induction ret b c st rule: quote_loop.induct)
  case (1 ret b c st)
  then show ?case
    by (subst quote_loop.simps)
      (fastforce simp: stream_get_unread split: option.split intro: order_trans)
qed

lemma plain_loop_unread: "length (unread (snd (plain_loop ret c st))) \<le> length (unread st)"
proof (induction ret c st rule: plain_loop.induct)
  case (1 ret c st)
  then show ?case
    by (subst plain_loop.simps)
      (fastforce simp: stream_get_unread split: option.split intro: order_trans)
qed

lemma skip_comma_unread: "length (unread (skip_comma st)) \<le> length (unread st)"
  by (auto simp: skip_comma_def stream_peek_def stream_get_def split: list.split)

lemmas loop_unread = scope_loop_unread quote_loop_unread plain_loop_unread

text \<open>Every call of the tokenizer on a live stream makes progress, so a token loop ends.\<close>

lemma nextToken_unread:
  assumes "unread st = x # xs"
  shows "length (unread (snd (nextToken st))) \<le> length xs"
proof -
  have tl_le: "length (unread s) \<le> length (tl xs) \<Longrightarrow> length (unread s) \<le> length xs" for s :: istream
    by simp
  have sc: "length (unread s) \<le> length (tl xs) \<Longrightarrow> length (unread (skip_comma s)) \<le> length xs" for s
    using skip_comma_unread [of s] by simp
  have get: "unread (snd (stream_get (snd (stream_get st)))) = tl xs"
    using assms by (simp add: stream_get_unread)
  have scope: "length (unread (snd (scope_loop sb eb ret d c (snd (stream_get (snd (stream_get st))))))) \<le> length (tl xs)"
    for sb eb ret d c
    using scope_loop_unread [of sb eb ret d c "snd (stream_get (snd (stream_get st)))"] get by simp
  have quote: "length (unread (snd (quote_loop ret b c (snd (stream_get (snd (stream_get st))))))) \<le> length (tl xs)"
    for ret b c
    using quote_loop_unread [of ret b c "snd (stream_get (snd (stream_get st)))"] get by simp
  have plain: "length (unread (snd (plain_loop ret c (snd (stream_get st))))) \<le> length xs" for ret c
    using plain_loop_unread [of ret c "snd (stream_get st)"] assms by (simp add: stream_get_unread)
  have "stream_peek st = (Some x, st)"
    using assms by (simp add: stream_peek_def)
  then show ?thesis
    using sc scope quote plain by (simp add: nextToken_def Let_def split_beta)
qed

lemma nextToken_stream_size: "\<not> eofbit st \<Longrightarrow> stream_size (snd (nextToken st)) < stream_size st"
proof (cases "unread st")
  case Nil
  then show "\<not> eofbit st \<Longrightarrow> ?thesis"
    by (simp add: nextToken_def stream_peek_def stream_size_def)
next
  case (Cons x xs)
  then show "\<not> eofbit st \<Longrightarrow> ?thesis"
    using nextToken_unread [OF Cons] by (simp add: stream_size_def)
qed

function element_loop :: "(istream \<Rightarrow> ('a \<times> istream) res) \<Rightarrow> istream \<Rightarrow> 'a list \<Rightarrow> 'a list res" where
  "element_loop deser sq vec =
     (if eofbit sq then Inr vec
      else res_bind (deser (istringstream (fst (nextToken sq))))
             (\<lambda>(element, _). element_loop deser (snd (nextToken sq)) (vec @ [element])))"
  by pat_completeness auto
termination
  by (relation "measure (\<lambda>(_, sq, _). stream_size sq)") (auto simp: nextToken_stream_size)

declare element_loop.simps [simp del]

definition deserializeSequence ::
  "(istream \<Rightarrow> ('a \<times> istream) res) \<Rightarrow> istream \<Rightarrow> 'a list \<Rightarrow> ('a list \<times> istream) res" where
  "deserializeSequence deser st vec =
     (let (seqData, st1) = nextToken st
      in if length seqData > 2
         then res_bind (pop_back seqData) (\<lambda>seqData.
              res_bind (element_loop deser (snd (stream_get (istringstream seqData))) vec) (\<lambda>vec'.
              Inr (vec', st1)))
         else Inr (vec, st1))"

fun default_value :: "cpp_type \<Rightarrow> cpp_value" where
  "default_value TInt = VInt 0"
| "default_value TString = VString []"
| "default_value (TVector t) = VVector []"
| "default_value (TObject ts) = VObject (map (\<lambda>t. default_value t) ts)"

fun vector_elements :: "cpp_value \<Rightarrow> cpp_value list" where
  "vector_elements (VVector xs) = xs"
| "vector_elements _ = []"

fun object_fields :: "cpp_value \<Rightarrow> cpp_value list" where
  "object_fields (VObject fs) = fs"
| "object_fields _ = []"

text \<open>
  Reading into a variable of type \<open>t\<close> that holds \<open>cur\<close>. An \<open>int\<close> and a string are
  assigned, a vector is appended to, an object reads each of its fields.
\<close>

fun deserialize :: "cpp_type \<Rightarrow> cpp_value \<Rightarrow> istream \<Rightarrow> (cpp_value \<times> istream) res"
  and deserialize_fields ::
    "cpp_type list \<Rightarrow> cpp_value list \<Rightarrow> istream \<Rightarrow> (cpp_value list \<times> istream) res" where
  "deserialize TInt cur st = res_bind (deserialize_int st) (\<lambda>(k, st1). Inr (VInt k, st1))"
| "deserialize TString cur st = res_bind (deserialize_string st) (\<lambda>(k, st1). Inr (VString k, st1))"
| "deserialize (TVector t) cur st =
     res_bind (deserializeSequence (\<lambda>s. deserialize t (default_value t) s) st (vector_elements cur))
       (\<lambda>(vec, st1). Inr (VVector vec, st1))"
| "deserialize (TObject ts) cur st =
     res_bind (ObjectDeser st) (\<lambda>(inn, st1).
     res_bind (deserialize_fields ts (object_fields cur) inn) (\<lambda>(fs, _).
     Inr (VObject fs, st1)))"
| "deserialize_fields [] curs inn = Inr ([], inn)"
| "deserialize_fields (t # ts) curs inn =
     res_bind (deserialize t (case curs of [] \<Rightarrow> default_value t | cur # _ \<Rightarrow> cur) inn)
       (\<lambda>(f, inn1). res_bind (deserialize_fields ts (tl curs) inn1)
          (\<lambda>(fs, inn2). Inr (f # fs, inn2)))"

end
