(* ===== verification/TokenScan.thy ===== *)
theory TokenScan
  imports Serialisation
begin

text \<open>
  What the loops of the format do on whole inputs: \<open>replaceInString\<close> against the left-to-right
  replacement of non-overlapping occurrences, and \<open>nextToken\<close> on each of the three shapes of
  token (bracketed, quoted, plain), both where the token is terminated and where the input ends
  first.
\<close>

section \<open>replaceInString\<close>

function replace_all :: "string \<Rightarrow> string \<Rightarrow> string \<Rightarrow> string" where
  "replace_all s search rep =
     (case s of
        [] \<Rightarrow> []
      | c # cs \<Rightarrow>
          if search \<noteq> [] \<and> prefix search s
          then rep @ replace_all (drop (length search) s) search rep
          else c # replace_all cs search rep)"
  by pat_completeness auto
termination
  by (relation "measure (\<lambda>(s, _, _). length s)") auto

declare replace_all.simps [simp del]

lemma replace_all_Nil [simp]: "replace_all [] search rep = []"
  by (simp add: replace_all.simps)

lemma replace_all_prefix:
  "search \<noteq> [] \<Longrightarrow> prefix search s \<Longrightarrow>
   replace_all s search rep = rep @ replace_all (drop (length search) s) search rep"
  by (subst replace_all.simps) (cases s; auto)

lemma replace_all_skip:
  "\<not> prefix search (c # cs) \<Longrightarrow> replace_all (c # cs) search rep = c # replace_all cs search rep"
  by (simp add: replace_all.simps [of "c # cs"])

lemma replace_loop_replace_all:
  assumes "search \<noteq> []"
  shows "replace_loop (pre @ s) search rep (length pre) = Some (pre @ replace_all s search rep)"
proof (induction "length s" arbitrary: pre s rule: less_induct)
  case less
  show ?case
  proof (cases "prefix search s")
    case True
    then obtain t where s: "s = search @ t" by (auto elim: prefixE)
    have "replace_loop (pre @ s) search rep (length pre) =
        replace_loop ((pre @ rep) @ t) search rep (length (pre @ rep))"
      by (subst replace_loop.simps)
        (simp add: s str_find_at find_here_prefix str_replace_def)
    also have "\<dots> = Some ((pre @ rep) @ replace_all t search rep)"
      using assms s by (intro less.hyps) simp
    finally show ?thesis
      using assms True by (simp add: s replace_all_prefix)
  next
    case False
    show ?thesis
    proof (cases s)
      case Nil
      then show ?thesis
        using assms by (subst replace_loop.simps) (simp add: str_find_def)
    next
      case (Cons c cs)
      have "replace_loop (pre @ s) search rep (length pre) =
          replace_loop ((pre @ [c]) @ cs) search rep (length (pre @ [c]))"
        using str_find_skip [of search c cs pre] False Cons
        by (subst (1 2) replace_loop.simps) (simp split: option.split)
      also have "\<dots> = Some ((pre @ [c]) @ replace_all cs search rep)"
        using Cons by (intro less.hyps) simp
      finally show ?thesis
        using False Cons by (simp add: replace_all_skip)
    qed
  qed
qed

lemma replaceInString_replace_all:
  "search \<noteq> [] \<Longrightarrow> replaceInString subject search rep = Some (replace_all subject search rep)"
  using replace_loop_replace_all [of search "[]" subject rep] by (simp add: replaceInString_def)

lemma replace_loop_empty_search:
  assumes "replace_loop subject search rep pos = Some r"
  shows "search \<noteq> [] \<or> length subject < pos"
proof (rule replace_loop.raw_induct
    [where P = "\<lambda>subject search rep pos r. search \<noteq> [] \<or> length subject < pos", OF _ assms])
  fix f and subject search rep :: string and pos r
  assume IH: "\<And>subject search rep pos r. f subject search rep pos = Some r \<Longrightarrow>
      search \<noteq> [] \<or> length subject < pos"
    and eq: "(case str_find subject search pos of None \<Rightarrow> Some subject
      | Some p \<Rightarrow> f (str_replace subject p (length search) rep) search rep (p + length rep)) = Some r"
  show "search \<noteq> [] \<or> length subject < pos"
  proof (rule ccontr)
    assume neg: "\<not> (search \<noteq> [] \<or> length subject < pos)"
    then have "str_find subject search pos = Some pos"
      by (simp add: str_find_def find_here_prefix)
    with eq neg have "f (str_replace subject pos 0 rep) [] rep (pos + length rep) = Some r"
      by simp
    from IH [OF this] neg show False by (simp add: str_replace_def)
  qed
qed

lemma replace_all_char:
  "replace_all s [x] rep = concat (map (\<lambda>c. if c = x then rep else [c]) s)"
  by (induction s) (auto simp: replace_all_prefix replace_all_skip)

section \<open>Quoting\<close>

definition escape :: "string \<Rightarrow> string" where
  "escape s = concat (map (\<lambda>c. if c = dquote then [backslash, dquote] else [c]) s)"

lemma serialize_string_escape: "serialize_string out s = out @ dquote # escape s @ [dquote]"
  by (simp add: serialize_string_def replaceInString_replace_all replace_all_char escape_def)

lemma escape_simps [simp]:
  "escape [] = []"
  "escape (c # cs) = (if c = dquote then backslash # dquote # escape cs else c # escape cs)"
  by (simp_all add: escape_def)

lemma escape_id: "dquote \<notin> set s \<Longrightarrow> escape s = s"
  by (induction s) auto

text \<open>
  \<open>open_text b w\<close>: no quote of \<open>w\<close> would end the token, where \<open>b\<close> says whether the
  character before \<open>w\<close> was a backslash.
\<close>

fun open_text :: "bool \<Rightarrow> string \<Rightarrow> bool" where
  "open_text b [] = True"
| "open_text b (c # cs) = (\<not> (c = dquote \<and> \<not> b) \<and> open_text (c = backslash) cs)"

fun ends_escaped :: "bool \<Rightarrow> string \<Rightarrow> bool" where
  "ends_escaped b [] = b"
| "ends_escaped b (c # cs) = ends_escaped (c = backslash) cs"

lemma open_text_no_quote: "dquote \<notin> set w \<Longrightarrow> open_text b w"
  by (induction w arbitrary: b) auto

lemma ends_escaped_last: "ends_escaped b w = (if w = [] then b else last w = backslash)"
  by (induction w arbitrary: b) auto

lemma open_text_escape: "open_text b (escape s)"
  by (induction s arbitrary: b) auto

lemma ends_escaped_escape: "ends_escaped False (escape s) = (s \<noteq> [] \<and> last s = backslash)"
proof -
  have "ends_escaped b (escape s) = (if s = [] then b else last s = backslash)" for b
    by (induction s arbitrary: b) auto
  then show ?thesis by simp
qed

lemma quote_loop_scan:
  "open_text b w \<Longrightarrow> \<not> ends_escaped b w \<Longrightarrow> x # xs = w @ dquote # r \<Longrightarrow>
   quote_loop ret b (Some x) (stream_at xs) = (ret @ w, stream_at r)"
proof (induction w arbitrary: b ret x xs)
  case Nil
  then show ?case by (subst quote_loop.simps) simp
next
  case (Cons a w)
  then obtain y ys where ys: "xs = y # ys" "y # ys = w @ dquote # r" and a: "x = a"
    by (cases w) auto
  have "quote_loop ret b (Some x) (stream_at xs) =
      quote_loop (ret @ [a]) (a = backslash) (Some y) (stream_at ys)"
    using Cons.prems(1) ys(1) a by (subst quote_loop.simps) simp
  with Cons ys show ?case by simp
qed

lemma quote_loop_unterminated:
  "open_text b (x # xs) \<Longrightarrow> quote_loop ret b (Some x) (stream_at xs) = (ret @ x # xs, stream_end)"
proof (induction xs arbitrary: b ret x)
  case Nil
  then show ?case
    by (subst quote_loop.simps) (simp, subst quote_loop.simps, simp)
next
  case (Cons y ys)
  then show ?case by (subst quote_loop.simps) simp
qed

section \<open>Nesting\<close>

text \<open>\<open>nesting p q d w\<close>: the depth after \<open>w\<close>, \<open>None\<close> when a bracket closes below depth 0.\<close>

fun nesting :: "char \<Rightarrow> char \<Rightarrow> nat \<Rightarrow> string \<Rightarrow> nat option" where
  "nesting p q d [] = Some d"
| "nesting p q d (c # cs) =
     (if c = p then nesting p q (Suc d) cs
      else if c = q then (case d of 0 \<Rightarrow> None | Suc d' \<Rightarrow> nesting p q d' cs)
      else nesting p q d cs)"

abbreviation balanced :: "char \<Rightarrow> char \<Rightarrow> string \<Rightarrow> bool" where
  "balanced p q w \<equiv> nesting p q 0 w = Some 0"

lemma nesting_append:
  "nesting p q d (v @ w) = (case nesting p q d v of None \<Rightarrow> None | Some e \<Rightarrow> nesting p q e w)"
  by (induction v arbitrary: d) (auto split: nat.split)

lemma nesting_shift: "nesting p q d w = Some e \<Longrightarrow> nesting p q (d + k) w = Some (e + k)"
proof (induction w arbitrary: d)
  case (Cons a w)
  then show ?case
    using Cons.IH [of "Suc d"] Cons.IH [of "d - 1"] Cons.IH [of d]
    by (cases d) (auto split: if_splits)
qed simp

lemma nesting_neutral: "p \<notin> set w \<Longrightarrow> q \<notin> set w \<Longrightarrow> nesting p q d w = Some d"
  by (induction w) auto

lemma balanced_append [wf_intros]: "balanced p q v \<Longrightarrow> balanced p q w \<Longrightarrow> balanced p q (v @ w)"
  by (simp add: nesting_append)

lemma balanced_wrap [wf_intros]: "p \<noteq> q \<Longrightarrow> balanced p q w \<Longrightarrow> balanced p q (p # w @ [q])"
  using nesting_shift [of p q 0 w 0 1] by (simp add: nesting_append)

lemma balanced_wrap_other [wf_intros]:
  "balanced p q w \<Longrightarrow> c \<noteq> p \<Longrightarrow> c \<noteq> q \<Longrightarrow> c' \<noteq> p \<Longrightarrow> c' \<noteq> q \<Longrightarrow> balanced p q (c # w @ [c'])"
  by (simp add: nesting_append)

lemma scope_loop_scan:
  "nesting sb eb k w = Some j \<Longrightarrow> x # xs = w @ y # r \<Longrightarrow>
   scope_loop sb eb ret (Suc k) (Some x) (stream_at xs) =
   scope_loop sb eb (ret @ w) (Suc j) (Some y) (stream_at r)"
proof (induction w arbitrary: k ret x xs)
  case Nil
  then show ?case by simp
next
  case (Cons a w)
  then obtain z zs where zs: "xs = z # zs" "z # zs = w @ y # r" and a: "x = a"
    by (cases w) auto
  obtain k' where k': "nesting sb eb k' w = Some j"
    and d: "Suc k' = (if a = sb then Suc k + 1 else if a = eb then Suc k - 1 else Suc k)"
    using Cons.prems(1) by (auto split: if_splits nat.splits)
  have "scope_loop sb eb ret (Suc k) (Some x) (stream_at xs) =
      scope_loop sb eb (ret @ [a]) (Suc k') (Some z) (stream_at zs)"
    using zs(1) a d by (subst scope_loop.simps) simp
  also have "\<dots> = scope_loop sb eb ((ret @ [a]) @ w) (Suc j) (Some y) (stream_at r)"
    using Cons.IH [OF k' zs(2)] .
  finally show ?case by simp
qed

lemma scope_loop_close:
  assumes "sb \<noteq> eb"
  shows "scope_loop sb eb ret (Suc 0) (Some eb) st = (ret @ [eb], snd (stream_get st))"
proof -
  have "scope_loop sb eb ret' 0 c st' = (ret', st')" for ret' c st'
    by (subst scope_loop.simps) (simp split: option.split)
  with assms show ?thesis by (subst scope_loop.simps) simp
qed

lemma scope_loop_unterminated:
  "nesting sb eb k (x # xs) = Some j \<Longrightarrow>
   scope_loop sb eb ret (Suc k) (Some x) (stream_at xs) = (ret @ x # xs, stream_end)"
proof -
  assume nest: "nesting sb eb k (x # xs) = Some j"
  define w y where "w = butlast (x # xs)" and "y = last (x # xs)"
  have split: "x # xs = w @ y # []"
    by (simp only: w_def y_def append_butlast_last_id list.distinct not_False_eq_True)
  then obtain i where i: "nesting sb eb k w = Some i"
    using nest by (auto simp: nesting_append split: option.splits)
  have none: "scope_loop sb eb ret' d None st = (ret', st)" for ret' d st
    by (subst scope_loop.simps) simp
  have "scope_loop sb eb (ret @ w) (Suc i) (Some y) (stream_at []) = (ret @ w @ [y], stream_end)"
    by (subst scope_loop.simps) (simp add: none)
  with scope_loop_scan [OF i split] show ?thesis
    by (simp only: split)
qed

section \<open>Plain tokens\<close>

lemma plain_loop_scan:
  "CHR '','' \<notin> set w \<Longrightarrow> x # xs = w @ CHR '','' # r \<Longrightarrow>
   plain_loop ret (Some x) (stream_at xs) = (ret @ w, stream_at r)"
proof (induction w arbitrary: ret x xs)
  case Nil
  then show ?case by (subst plain_loop.simps) simp
next
  case (Cons a w)
  then obtain y ys where ys: "xs = y # ys" "y # ys = w @ CHR '','' # r" and a: "x = a"
    by (cases w) auto
  have "plain_loop ret (Some x) (stream_at xs) = plain_loop (ret @ [a]) (Some y) (stream_at ys)"
    using Cons.prems(1) ys(1) a by (subst plain_loop.simps) auto
  with Cons ys show ?case by simp
qed

lemma plain_loop_end:
  "CHR '','' \<notin> set (x # xs) \<Longrightarrow>
   plain_loop ret (Some x) (stream_at xs) = (ret @ x # xs, stream_end)"
proof (induction xs arbitrary: ret x)
  case Nil
  then show ?case
    by (subst plain_loop.simps) (simp, subst plain_loop.simps, simp)
next
  case (Cons y ys)
  then show ?case by (subst plain_loop.simps) auto
qed

section \<open>nextToken on the three shapes of token\<close>

lemma skip_comma_simps [simp]:
  "skip_comma stream_end = stream_end"
  "skip_comma (stream_at []) = stream_end"
  "skip_comma (stream_at (CHR '','' # r)) = stream_at r"
  "c \<noteq> CHR '','' \<Longrightarrow> skip_comma (stream_at (c # r)) = stream_at (c # r)"
  by (simp_all add: skip_comma_def)

lemma nextToken_empty [simp]: "nextToken (stream_at []) = ([], stream_end)"
  by (simp add: nextToken_def)

abbreviation brace_pair :: "char \<Rightarrow> char \<Rightarrow> bool" where
  "brace_pair sb eb \<equiv> (sb = CHR ''['' \<and> eb = CHR '']'') \<or> (sb = CHR ''{'' \<and> eb = CHR ''}'')"

lemma nextToken_scope:
  assumes "brace_pair sb eb" and "balanced sb eb w"
  shows "nextToken (stream_at (sb # w @ eb # r)) =
    (sb # w @ [eb], skip_comma (snd (stream_get (stream_at r))))"
proof -
  obtain x xs where x: "w @ eb # r = x # xs" by (cases w) auto
  have "scope_loop sb eb [sb] 1 (Some x) (stream_at xs) =
      (sb # w @ [eb], snd (stream_get (stream_at r)))"
    using scope_loop_scan [OF assms(2) x [symmetric]] scope_loop_close [of sb eb] assms(1) by auto
  with assms(1) x show ?thesis by (auto simp: nextToken_def)
qed

lemma nextToken_scope_unterminated:
  assumes "brace_pair sb eb" and "nesting sb eb 0 w = Some j"
  shows "nextToken (stream_at (sb # w)) = (sb # w, stream_end)"
proof (cases w)
  case Nil
  have "scope_loop sb eb [sb] 1 None stream_end = ([sb], stream_end)"
    by (subst scope_loop.simps) simp
  with Nil assms(1) show ?thesis by (auto simp: nextToken_def)
next
  case (Cons x xs)
  with assms(2) have "scope_loop sb eb [sb] 1 (Some x) (stream_at xs) = (sb # w, stream_end)"
    using scope_loop_unterminated [of sb eb 0 x xs j "[sb]"] by simp
  with Cons assms(1) show ?thesis by (auto simp: nextToken_def)
qed

lemma nextToken_quote:
  assumes "open_text False w" and "\<not> ends_escaped False w"
  shows "nextToken (stream_at (dquote # w @ dquote # r)) = (w, skip_comma (stream_at r))"
proof -
  obtain x xs where x: "w @ dquote # r = x # xs" by (cases w) auto
  show ?thesis
    using quote_loop_scan [OF assms x [symmetric], of "[]"] x by (simp add: nextToken_def)
qed

lemma nextToken_quote_unterminated:
  assumes "open_text False w"
  shows "nextToken (stream_at (dquote # w)) = (w, stream_end)"
proof (cases w)
  case Nil
  have "quote_loop [] False None stream_end = ([], stream_end)"
    by (subst quote_loop.simps) simp
  with Nil show ?thesis by (simp add: nextToken_def)
next
  case (Cons x xs)
  with quote_loop_unterminated [of False x xs "[]"] assms show ?thesis
    by (simp add: nextToken_def)
qed

lemma nextToken_plain:
  assumes "CHR '','' \<notin> set w" and "w \<noteq> []" and "hd w \<notin> {CHR ''['', CHR ''{'', dquote}"
  shows "nextToken (stream_at (w @ CHR '','' # r)) = (w, stream_at r)"
    and "nextToken (stream_at w) = (w, stream_end)"
proof -
  obtain x xs where w: "w = x # xs" using assms(2) by (cases w) auto
  show "nextToken (stream_at (w @ CHR '','' # r)) = (w, stream_at r)"
    using plain_loop_scan [of w x "xs @ CHR '','' # r" r "[]"] assms(1,3) w
    by (auto simp: nextToken_def)
  show "nextToken (stream_at w) = (w, stream_end)"
    using plain_loop_end [of x xs "[]"] assms(1,3) w by (auto simp: nextToken_def)
qed

end
