(* ===== verification/SerialisationRoundtrip.thy ===== *)
theory SerialisationRoundtrip
  imports TokenScan
begin

text \<open>
  Writing a value and reading it back. The theory first gives the text of a value as a function
  of the value alone, then the conditions under which the tokenizer finds the value's end (the
  strings the format can carry), and proves the round trip for nested values by induction, with the
  text that follows the value generalised.
\<close>

section \<open>The text of a value\<close>

fun comma_sep :: "string list \<Rightarrow> string" where
  "comma_sep [] = []"
| "comma_sep [x] = x"
| "comma_sep (x # y # ys) = x @ '','' @ comma_sep (y # ys)"

fun text_of :: "cpp_value \<Rightarrow> string" where
  "text_of (VInt k) = to_string (sint k)"
| "text_of (VString s) = dquote # escape s @ [dquote]"
| "text_of (VVector xs) = CHR ''['' # comma_sep (map (\<lambda>x. text_of x) xs) @ '']''"
| "text_of (VObject fs) = CHR ''{'' # comma_sep (map (\<lambda>f. text_of f) fs) @ ''}''"

lemma comma_sep_Cons: "comma_sep (x # xs) = x @ (if xs = [] then [] else CHR '','' # comma_sep xs)"
  by (cases xs) simp_all

lemma sequence_loop_comma_sep:
  assumes "\<And>o' x. x \<in> set xs \<Longrightarrow> ser o' x = o' @ tx x"
  shows "sequence_loop ser out first xs =
    out @ (if first \<or> xs = [] then [] else '','') @ comma_sep (map tx xs)"
  using assms by (induction xs arbitrary: out first) (simp_all add: comma_sep_Cons)

lemma ObjectSer_fold_comma_sep:
  assumes "\<And>o' x. x \<in> set fs \<Longrightarrow> ser o' x = o' @ tx x"
  shows "os_out (foldl (ObjectSer_put ser) obj fs) =
    os_out obj @ (if os_first obj \<or> fs = [] then [] else '','') @ comma_sep (map tx fs)"
  using assms
  by (induction fs arbitrary: obj) (simp_all add: comma_sep_Cons ObjectSer_put_def)

lemma serialize_text_of: "serialize out v = out @ text_of v"
proof (induction v arbitrary: out)
  case (VInt x)
  then show ?case by (simp add: serialize_int_def)
next
  case (VString x)
  then show ?case by (simp add: serialize_string_escape)
next
  case (VVector xs)
  then show ?case
    by (simp add: serializeSequence_def sequence_loop_comma_sep [where tx = text_of])
next
  case (VObject fs)
  then show ?case
    by (simp add: ObjectSer_destroy_def ObjectSer_fold_comma_sep [where tx = text_of])
      (simp add: ObjectSer_def)
qed

lemma ObjectSer_fields_text:
  "os_out (foldl (ObjectSer_put serialize) (ObjectSer out) fs) =
     out @ CHR ''{'' # comma_sep (map text_of fs)"
  by (subst ObjectSer_fold_comma_sep [where tx = text_of])
    (simp_all add: serialize_text_of ObjectSer_def)

section \<open>The values the format can carry\<close>

text \<open>
  A string survives when it has no quote, does not end in a backslash and its brackets of both kinds
  are balanced. A string that is an element of a vector is read twice, the second time without its
  quotes: it must also have no comma and must not start with an opening bracket.
\<close>

definition plain_string :: "string \<Rightarrow> bool" where
  "plain_string s \<longleftrightarrow> dquote \<notin> set s \<and> (s = [] \<or> last s \<noteq> backslash) \<and>
     balanced (CHR ''{'') (CHR ''}'') s \<and> balanced (CHR ''['') (CHR '']'') s"

fun element_ok :: "cpp_value \<Rightarrow> bool" where
  "element_ok (VString s) =
     (CHR '','' \<notin> set s \<and> (s = [] \<or> hd s \<notin> {CHR ''['', CHR ''{''}))"
| "element_ok _ = True"

fun wf_value :: "cpp_type \<Rightarrow> cpp_value \<Rightarrow> bool"
  and wf_fields :: "cpp_type list \<Rightarrow> cpp_value list \<Rightarrow> bool" where
  "wf_value TInt (VInt k) = True"
| "wf_value TString (VString s) = plain_string s"
| "wf_value (TVector t) (VVector xs) = (\<forall>x\<in>set xs. wf_value t x \<and> element_ok x)"
| "wf_value (TObject ts) (VObject fs) = wf_fields ts fs"
| "wf_value _ _ = False"
| "wf_fields [] [] = True"
| "wf_fields (t # ts) (f # fs) = (wf_value t f \<and> wf_fields ts fs)"
| "wf_fields _ _ = False"

lemma wf_fields_list_all2: "wf_fields ts fs = list_all2 wf_value ts fs"
  by (induction ts fs rule: list_induct2') auto

lemma wf_value_cases [consumes 1, case_names Int String Vector Object]:
  assumes "wf_value t v"
  obtains k where "t = TInt" "v = VInt k"
  | s where "t = TString" "v = VString s" "plain_string s"
  | t' xs where "t = TVector t'" "v = VVector xs" "\<forall>x\<in>set xs. wf_value t' x \<and> element_ok x"
  | ts fs where "t = TObject ts" "v = VObject fs" "wf_fields ts fs"
  using assms by (cases t; cases v) auto

lemma to_string_not_special:
  "c \<in> {CHR '','', dquote, CHR ''['', CHR '']'', CHR ''{'', CHR ''}''} \<Longrightarrow> c \<notin> set (to_string i)"
  using to_string_chars [of c i] by (auto dest: is_digit_not_special)

lemma text_of_nonempty [simp]: "text_of v \<noteq> []"
  by (cases v) simp_all

lemma text_of_hd: "hd (text_of v) \<noteq> CHR '',''"
proof (cases v)
  case (VInt k)
  then show ?thesis
    using to_string_not_special [of "CHR '',''" "sint k"]
    by (cases "to_string (sint k)") auto
qed simp_all

lemma comma_sep_eq_Nil: "comma_sep (map text_of vs) = [] \<longleftrightarrow> vs = []"
  by (cases vs) (simp_all add: comma_sep_Cons)

lemma comma_sep_hd: "vs \<noteq> [] \<Longrightarrow> hd (comma_sep (map text_of vs)) \<noteq> CHR '',''"
  by (cases vs) (simp_all add: comma_sep_Cons text_of_hd)

lemma balanced_comma_sep:
  assumes "\<forall>x\<in>set xs. balanced p q x" and "p \<noteq> CHR '',''" and "q \<noteq> CHR '',''"
  shows "balanced p q (comma_sep xs)"
  using assms by (induction xs rule: comma_sep.induct) (auto simp: nesting_append)

lemma balanced_bracket:
  "brace_pair p q \<Longrightarrow> brace_pair c c' \<Longrightarrow> balanced p q w \<Longrightarrow> balanced p q (c # w @ [c'])"
  using balanced_wrap [of p q w] balanced_wrap_other [of p q w c c'] by auto

lemma wf_fields_wf_value: "wf_fields ts fs \<Longrightarrow> f \<in> set fs \<Longrightarrow> \<exists>t. wf_value t f"
  by (induction ts fs rule: list_induct2') auto

lemma balanced_text_of:
  assumes "wf_value t v" and "brace_pair p q"
  shows "balanced p q (text_of v)"
  using assms(1)
proof (induction v arbitrary: t)
  case (VInt k)
  then show ?case
    using assms(2) to_string_not_special [of p "sint k"] to_string_not_special [of q "sint k"]
    by (auto intro!: nesting_neutral)
next
  case (VString s)
  then have "plain_string s" by (cases t) auto
  then have "balanced p q s" "escape s = s"
    using assms(2) by (auto simp: plain_string_def escape_id)
  with assms(2) balanced_wrap_other [of p q s dquote dquote] show ?case by auto
next
  case (VVector xs)
  then have "\<forall>x\<in>set (map text_of xs). balanced p q x" by (cases t) auto
  with assms(2) have "balanced p q (comma_sep (map text_of xs))"
    by (intro balanced_comma_sep) auto
  with assms(2) show ?case unfolding text_of.simps by (intro balanced_bracket) simp_all
next
  case (VObject fs)
  then have "\<forall>x\<in>set (map text_of fs). balanced p q x"
    using wf_fields_wf_value by (cases t) fastforce+
  with assms(2) have "balanced p q (comma_sep (map text_of fs))"
    by (intro balanced_comma_sep) auto
  with assms(2) show ?case unfolding text_of.simps by (intro balanced_bracket) simp_all
qed

lemma balanced_texts:
  assumes "\<And>v. v \<in> set vs \<Longrightarrow> \<exists>t. wf_value t v" and "brace_pair p q"
  shows "balanced p q (comma_sep (map text_of vs))"
  using assms balanced_text_of by (intro balanced_comma_sep) force+

section \<open>The token of a value\<close>

fun token_of :: "cpp_value \<Rightarrow> string" where
  "token_of (VString s) = s"
| "token_of v = text_of v"

text \<open>What may follow a value in a text: its end, or a comma and the next value.\<close>

definition follows :: "string \<Rightarrow> bool" where
  "follows r \<longleftrightarrow> r = [] \<or> (\<exists>r'. r = CHR '','' # r' \<and> r' \<noteq> [] \<and> hd r' \<noteq> CHR '','')"

definition after_token :: "string \<Rightarrow> istream" where
  "after_token r = (case r of [] \<Rightarrow> stream_end | _ # r' \<Rightarrow> stream_at r')"

lemma followsE [consumes 1, case_names end_of_text comma]:
  assumes "follows r"
  obtains "r = []" | c r' where "r = CHR '','' # c # r'" "c \<noteq> CHR '',''"
proof (cases "r = []")
  case False
  with assms obtain r' where "r = CHR '','' # r'" "r' \<noteq> []" "hd r' \<noteq> CHR '',''"
    by (auto simp: follows_def)
  then show ?thesis using that(2) by (cases r') auto
qed (rule that(1))

lemma follows_Nil [simp]: "follows []" and after_token_Nil [simp]: "after_token [] = stream_end"
  by (simp_all add: follows_def after_token_def)

lemma after_token_comma [simp]: "after_token (CHR '','' # r) = stream_at r"
  by (simp add: after_token_def)

lemma follows_comma_sep: "vs \<noteq> [] \<Longrightarrow> follows (CHR '','' # comma_sep (map text_of vs))"
  by (simp add: follows_def comma_sep_eq_Nil comma_sep_hd)

lemma nextToken_scope_after:
  assumes "brace_pair sb eb" and "balanced sb eb w" and "follows r"
  shows "nextToken (stream_at (sb # w @ eb # r)) = (sb # w @ [eb], after_token r)"
  using assms(3) nextToken_scope [OF assms(1,2), of r] by (cases rule: followsE) auto

lemma nextToken_text_of:
  assumes "wf_value t v" and "follows r"
  shows "nextToken (stream_at (text_of v @ r)) = (token_of v, after_token r)"
  using assms(1)
proof (cases rule: wf_value_cases)
  case (Int k)
  have "hd (to_string (sint k)) \<notin> {CHR ''['', CHR ''{'', dquote}"
    using to_string_not_special [of _ "sint k"] by (cases "to_string (sint k)") force+
  then show ?thesis
    using assms(2) Int nextToken_plain [of "to_string (sint k)"]
      to_string_not_special [of "CHR '',''" "sint k"]
    by (elim followsE) simp_all
next
  case (String s)
  then have "open_text False s" "\<not> ends_escaped False s"
    by (auto simp: plain_string_def open_text_no_quote ends_escaped_last)
  from nextToken_quote [OF this] String show ?thesis
    using assms(2)
    by (elim followsE)
      (auto simp: plain_string_def escape_id)
next
  case (Vector t' xs)
  then have "balanced (CHR ''['') (CHR '']'') (comma_sep (map text_of xs))"
    by (intro balanced_texts) auto
  then show ?thesis
    using nextToken_scope_after [of "CHR ''[''" "CHR '']''"] assms(2) Vector by simp
next
  case (Object ts fs)
  then have "balanced (CHR ''{'') (CHR ''}'') (comma_sep (map text_of fs))"
    using wf_fields_wf_value by (intro balanced_texts) auto
  then show ?thesis
    using nextToken_scope_after [of "CHR ''{''" "CHR ''}''"] assms(2) Object by simp
qed


section \<open>Reading back what was written\<close>

lemma stoi_sint: "stoi (to_string (sint (k::u32))) = Inr (sint k)"
  using sint_ge [of k] sint_lt [of k] by (intro stoi_to_string) (simp_all add: int_min_def int_max_def)

lemma element_loop_end [simp]: "element_loop deser stream_end vec = Inr vec"
  by (subst element_loop.simps) simp

lemma element_loop_texts:
  assumes "xs \<noteq> []"
    and wf: "\<And>x. x \<in> set xs \<Longrightarrow> wf_value t x"
    and deser: "\<And>x. x \<in> set xs \<Longrightarrow> \<exists>st. deser (stream_at (token_of x)) = Inr (x, st)"
  shows "element_loop deser (stream_at (comma_sep (map text_of xs))) vec = Inr (vec @ xs)"
  using assms
proof (induction xs arbitrary: vec)
  case (Cons x xs)
  define r where "r = (if xs = [] then [] else CHR '','' # comma_sep (map text_of xs))"
  have "follows r" by (simp add: r_def follows_comma_sep)
  then have "nextToken (stream_at (comma_sep (map text_of (x # xs)))) = (token_of x, after_token r)"
    using nextToken_text_of [of t x r] Cons.prems(2) by (simp add: comma_sep_Cons r_def)
  moreover obtain st where "deser (stream_at (token_of x)) = Inr (x, st)"
    using Cons.prems(3) by force
  ultimately have "element_loop deser (stream_at (comma_sep (map text_of (x # xs)))) vec =
      element_loop deser (after_token r) (vec @ [x])"
    by (subst element_loop.simps) (simp add: istringstream_def)
  with Cons show ?case by (cases "xs = []") (simp_all add: r_def)
qed simp

lemma deserialize_token_string:
  assumes "plain_string s" and "element_ok (VString s)"
  shows "\<exists>st. deserialize TString cur (stream_at s) = Inr (VString s, st)"
proof (cases "s = []")
  case True
  then show ?thesis by (simp add: deserialize_string_def)
next
  case False
  with assms have "hd s \<notin> {CHR ''['', CHR ''{'', dquote}"
    by (cases s) (auto simp: plain_string_def)
  with assms False nextToken_plain(2) [of s] show ?thesis by (simp add: deserialize_string_def)
qed

lemma deserializeSequence_texts:
  assumes "\<And>x. x \<in> set xs \<Longrightarrow> wf_value t x"
    and "\<And>x. x \<in> set xs \<Longrightarrow> \<exists>st. deser (stream_at (token_of x)) = Inr (x, st)"
    and "follows r"
  shows "deserializeSequence deser (stream_at (text_of (VVector xs) @ r)) vec =
    Inr (vec @ xs, after_token r)"
proof -
  let ?w = "comma_sep (map text_of xs)"
  have "balanced (CHR ''['') (CHR '']'') ?w"
    using assms(1) by (intro balanced_texts) auto
  then have "nextToken (stream_at (text_of (VVector xs) @ r)) =
      (CHR ''['' # ?w @ '']'', after_token r)"
    using nextToken_scope_after [OF _ _ assms(3)] by simp
  moreover have "xs \<noteq> [] \<Longrightarrow> 2 < length (CHR ''['' # ?w @ '']'')"
    using comma_sep_eq_Nil [of xs] by (cases ?w) auto
  ultimately show ?thesis
    using element_loop_texts [of xs t deser vec] assms(1,2)
    by (cases "xs = []")
      (simp_all add: deserializeSequence_def istringstream_def butlast_append)
qed

lemma ObjectDeser_texts:
  assumes "balanced (CHR ''{'') (CHR ''}'') w" and "follows r"
  shows "ObjectDeser (stream_at (CHR ''{'' # w @ CHR ''}'' # r)) = Inr (stream_at w, after_token r)"
  using nextToken_scope_after [OF _ assms]
  by (cases w) (simp_all add: ObjectDeser_def istringstream_def butlast_append)

lemma deserialize_fields_texts:
  assumes "list_all2 (\<lambda>t f. \<forall>r. follows r \<longrightarrow>
      deserialize t (default_value t) (stream_at (text_of f @ r)) = Inr (f, after_token r)) ts fs"
  shows "\<exists>inn. deserialize_fields ts (map default_value ts) (stream_at (comma_sep (map text_of fs)))
    = Inr (fs, inn)"
  using assms
proof (induction ts fs rule: list_all2_induct)
  case (Cons t ts f fs)
  define r where "r = (if fs = [] then [] else CHR '','' # comma_sep (map text_of fs))"
  have "follows r" by (simp add: r_def follows_comma_sep)
  with Cons.hyps(1) have
    "deserialize t (default_value t) (stream_at (comma_sep (map text_of (f # fs)))) =
      Inr (f, after_token r)"
    by (simp add: comma_sep_Cons r_def)
  moreover have "\<exists>inn. deserialize_fields ts (map default_value ts) (after_token r) = Inr (fs, inn)"
    using Cons.IH Cons.hyps(2) by (cases "fs = []") (simp_all add: r_def)
  ultimately show ?case by auto
qed simp

lemma deserialize_text_of:
  assumes "wf_value t v" and "follows r"
  shows "deserialize t (default_value t) (stream_at (text_of v @ r)) = Inr (v, after_token r)"
  using assms
proof (induction v arbitrary: t r)
  case (VInt k)
  then show ?case
    using nextToken_text_of [OF VInt]
    by (cases t) (simp_all add: deserialize_int_def stoi_sint)
next
  case (VString s)
  then show ?case
    using nextToken_text_of [OF VString]
    by (cases t) (simp_all add: deserialize_string_def)
next
  case (VVector xs)
  then obtain t' where t: "t = TVector t'" and wf: "\<forall>x\<in>set xs. wf_value t' x \<and> element_ok x"
    by (cases t) auto
  have "\<exists>st. deserialize t' (default_value t') (stream_at (token_of x)) = Inr (x, st)"
    if "x \<in> set xs" for x
  proof (cases x)
    case (VString s)
    with wf that show ?thesis using deserialize_token_string [of s] by (cases t') auto
  qed (use VVector.IH [OF that, of t' "[]"] wf that in auto)
  then show ?case
    using deserializeSequence_texts [of xs t' _ r "[]"] wf t VVector.prems(2) by auto
next
  case (VObject fs)
  then obtain ts where t: "t = TObject ts" and wf: "list_all2 wf_value ts fs"
    by (cases t) (auto simp: wf_fields_list_all2)
  have "list_all2 (\<lambda>t f. \<forall>r. follows r \<longrightarrow>
      deserialize t (default_value t) (stream_at (text_of f @ r)) = Inr (f, after_token r)) ts fs"
    using wf VObject.IH by (auto simp: list_all2_conv_all_nth)
  from deserialize_fields_texts [OF this] obtain inn where
    "deserialize_fields ts (map default_value ts) (stream_at (comma_sep (map text_of fs))) =
      Inr (fs, inn)" by blast
  moreover have "balanced (CHR ''{'') (CHR ''}'') (comma_sep (map text_of fs))"
    using VObject.prems(1) t wf_fields_wf_value by (intro balanced_texts) auto
  ultimately show ?case
    using ObjectDeser_texts [of _ r] VObject.prems(2) t by simp
qed

lemma deserialize_token_of:
  assumes "wf_value t x" and "element_ok x"
  shows "\<exists>st. deserialize t (default_value t) (stream_at (token_of x)) = Inr (x, st)"
proof (cases "\<exists>s. x = VString s")
  case True
  with assms show ?thesis using deserialize_token_string by (cases t) auto
next
  case False
  then have "token_of x = text_of x" by (cases x) auto
  with deserialize_text_of [OF assms(1) follows_Nil] show ?thesis by auto
qed

section \<open>Properties\<close>

text \<open>
  C1 Round trip of the text format: a value of any nesting whose strings the format can carry is
  read back exactly as it was written, and the stream is then at its end.
\<close>

theorem serialize_roundtrip:
  assumes "wf_value t v"
  shows "deserialize t (default_value t) (istringstream (serialize [] v)) = Inr (v, stream_end)"
  using deserialize_text_of [OF assms follows_Nil]
  by (simp add: istringstream_def serialize_text_of)

definition demo_type :: cpp_type where
  "demo_type = TObject [TInt, TObject [TInt, TInt, TString], TInt,
     TVector (TObject [TInt, TInt, TString]), TString]"

definition demo_value :: cpp_value where
  "demo_value = VObject [VInt 11, VObject [VInt 55, VInt 66, VString ''Hello {World}''], VInt (- 33),
     VVector [VObject [VInt 88, VInt 99, VString ''a, b''], VObject [VInt 0, VInt 22, VString []]],
     VString ''TEST1'']"

theorem serialize_roundtrip_witness:
  "wf_value demo_type demo_value \<and>
   deserialize demo_type (default_value demo_type) (istringstream (serialize [] demo_value)) =
     Inr (demo_value, stream_end)"
proof -
  have wf: "wf_value demo_type demo_value"
    by (simp add: demo_type_def demo_value_def plain_string_def)
  show ?thesis using wf serialize_roundtrip [OF wf] by simp
qed

text \<open>
  Reading a sequence into a vector that already has elements appends to it: the elements that
  were there stay in front.
\<close>

theorem deserialize_vector_appends:
  assumes "wf_value (TVector t) (VVector xs)"
  shows "deserialize (TVector t) (VVector old) (istringstream (serialize [] (VVector xs))) =
    Inr (VVector (old @ xs), stream_end)"
proof -
  have "\<exists>st. deserialize t (default_value t) (stream_at (token_of x)) = Inr (x, st)"
    if "x \<in> set xs" for x
    using that assms by (intro deserialize_token_of) auto
  with assms deserializeSequence_texts [of xs t _ "[]" old] show ?thesis
    by (simp add: istringstream_def serialize_text_of del: text_of.simps)
qed

theorem deserialize_vector_appends_witness:
  "deserialize (TVector TInt) (VVector [VInt 1]) (istringstream (serialize [] (VVector [VInt 2, VInt 3])))
   = Inr (VVector [VInt 1, VInt 2, VInt 3], stream_end)"
  using deserialize_vector_appends [of TInt "[VInt 2, VInt 3]" "[VInt 1]"] by simp

text \<open>
  A quote inside a string is escaped when it is written and stays escaped when it is read: a
  string that does not end in a backslash is read back as its escaped form, which is the string
  itself only if it has no quote.
\<close>

theorem deserialize_string_keeps_escapes:
  assumes "s = [] \<or> last s \<noteq> backslash"
  shows "\<exists>k. deserialize_string (istringstream (serialize_string [] s)) = Inr (k, stream_end) \<and>
    replaceInString s [dquote] [backslash, dquote] = Some k \<and> (k = s \<longleftrightarrow> dquote \<notin> set s)"
proof (intro exI conjI)
  have "\<not> ends_escaped False (escape s)"
    using assms by (auto simp: ends_escaped_escape)
  then show "deserialize_string (istringstream (serialize_string [] s)) = Inr (escape s, stream_end)"
    using nextToken_quote [OF open_text_escape, of s "[]"]
    by (simp add: deserialize_string_def istringstream_def serialize_string_escape)
  show "replaceInString s [dquote] [backslash, dquote] = Some (escape s)"
    by (simp add: replaceInString_replace_all replace_all_char escape_def)
  have "length (escape s) = length s + length (filter ((=) dquote) s)"
    by (induction s) auto
  then show "escape s = s \<longleftrightarrow> dquote \<notin> set s"
    by (metis escape_id add_cancel_left_right filter_empty_conv length_0_conv)
qed

theorem deserialize_string_keeps_escapes_witness:
  "deserialize_string (istringstream (serialize_string [] [CHR ''a'', dquote])) =
     Inr ([CHR ''a'', backslash, dquote], stream_end)"
proof -
  have r: "replaceInString [CHR ''a'', dquote] [dquote] [backslash, dquote] =
      Some [CHR ''a'', backslash, dquote]"
    by (simp add: replaceInString_replace_all replace_all_char)
  show ?thesis using deserialize_string_keeps_escapes [of "[CHR ''a'', dquote]"] r by auto
qed

text \<open>
  A string inside a vector is tokenized twice, the second time without its quotes, so it is cut
  at its first comma: the element read back is the part before the comma.
\<close>

theorem vector_string_cut_at_comma:
  assumes "plain_string (a @ CHR '','' # b)" and "CHR '','' \<notin> set a"
    and "a \<noteq> []" and "hd a \<notin> {CHR ''['', CHR ''{''}"
  shows "deserialize (TVector TString) (VVector [])
      (istringstream (serialize [] (VVector [VString (a @ CHR '','' # b)]))) =
    Inr (VVector [VString a], stream_end)"
proof -
  let ?s = "a @ CHR '','' # b"
  have q: "hd a \<notin> {CHR ''['', CHR ''{'', dquote}"
    using assms(1,3,4) by (cases a) (auto simp: plain_string_def)
  have inner: "nextToken (stream_at (text_of (VString ?s))) = (?s, stream_end)"
    using nextToken_text_of [of TString "VString ?s" "[]"] assms(1) by simp
  have "balanced (CHR ''['') (CHR '']'') (text_of (VString ?s))"
    using assms(1) by (intro balanced_text_of [of TString]) simp_all
  then have outer: "nextToken (stream_at (CHR ''['' # text_of (VString ?s) @ '']'')) =
      (CHR ''['' # text_of (VString ?s) @ '']'', stream_end)"
    using nextToken_scope_after [of "CHR ''[''" "CHR '']''" "text_of (VString ?s)" "[]"]
    by (simp del: text_of.simps)
  have "element_loop (deserialize TString (VString [])) (stream_at (text_of (VString ?s))) [] =
      Inr [VString a]"
    using inner nextToken_plain(1) [OF assms(2,3) q, of b]
    by (subst element_loop.simps) (simp add: istringstream_def deserialize_string_def)
  with outer show ?thesis
    by (simp add: istringstream_def serialize_text_of deserializeSequence_def butlast_append)
qed

theorem vector_string_cut_at_comma_witness:
  "deserialize (TVector TString) (VVector []) (istringstream (serialize [] (VVector [VString ''a,b''])))
   = Inr (VVector [VString ''a''], stream_end)"
  using vector_string_cut_at_comma [of "''a''" "''b''"] by (simp add: plain_string_def)

text \<open>
  C27 \<open>replaceInString\<close> returns for every non-empty search string, with all occurrences replaced
  from left to right and the replacement text never searched again; for an empty search string its
  loop never ends.
\<close>

theorem replaceInString_correct:
  "replaceInString subject search rep =
     (if search = [] then None else Some (replace_all subject search rep))"
proof (cases "search = []")
  case True
  then show ?thesis
    using replace_loop_empty_search [of subject search rep 0]
    by (cases "replaceInString subject search rep") (auto simp: replaceInString_def)
qed (simp add: replaceInString_replace_all)

text \<open>
  C28 The tokenizer makes progress: on a stream that is not at \<open>eof()\<close> a call consumes a
  character or reaches the end, so a loop \<open>while (!in.eof()) nextToken(in)\<close> makes at most as many
  rounds as the stream has characters, and one more.
\<close>

theorem nextToken_progress:
  assumes "\<not> eofbit st"
  shows "stream_size (snd (nextToken st)) < stream_size st \<and>
    stream_size st \<le> length (unread st) + 1"
  using nextToken_stream_size [OF assms] by (simp add: stream_size_def)

theorem nextToken_progress_witness:
  "stream_size (snd (nextToken (stream_at ''[1],2''))) < 6"
  using nextToken_progress [of "stream_at ''[1],2''"] by (simp add: stream_size_def)

end
