(* ===== verification/ConstHelpers.thy ===== *)
theory ConstHelpers
  imports Prelude
begin

text \<open>
  The compile-time string class \<open>StringLiteral\<close> of \<open>lib/consthelpers.hpp\<close> and the predicate
  \<open>is_retval\<close> of \<open>lib/retvalserialisation.h\<close>, which the registration macros evaluate on the
  spelling of a parameter type. A literal is the string of its characters; its size is a 64-bit
  \<open>size_t\<close>, and the subtraction in \<open>take_front\<close> wraps around as it does in C++.
\<close>

type_synonym literal = string

definition sl_size :: "literal \<Rightarrow> u64" where
  "sl_size s = word_of_nat (length s)"

definition sl_empty :: "literal \<Rightarrow> bool" where
  "sl_empty s \<longleftrightarrow> sl_size s = 0"

definition sl_front :: "literal \<Rightarrow> char res" where
  "sl_front s =
     (if \<not> sl_empty s then Inr (hd s)
      else Inl (Literal_thrown ''Cannot call front() on an empty StringLiteral''))"

definition sl_drop_front :: "literal \<Rightarrow> u64 \<Rightarrow> literal res" where
  "sl_drop_front s count =
     (if sl_size s \<ge> count then Inr (drop (unat count) s)
      else Inl (Literal_thrown ''drop_front() cannot drop that many elements!''))"

definition sl_drop_back :: "literal \<Rightarrow> u64 \<Rightarrow> literal res" where
  "sl_drop_back s count =
     (if sl_size s \<ge> count then Inr (take (length s - unat count) s)
      else Inl (Literal_thrown ''drop_back() cannot drop that many elements!''))"

definition sl_take_front :: "literal \<Rightarrow> u64 \<Rightarrow> literal res" where
  "sl_take_front s count =
     (if count = sl_size s then Inr s else sl_drop_back s (sl_size s - count))"

lemma sl_not_empty: "\<not> sl_empty s \<Longrightarrow> s \<noteq> []"
  by (auto simp: sl_empty_def sl_size_def)

function sl_eq :: "literal \<Rightarrow> literal \<Rightarrow> bool res" where
  "sl_eq s other =
     (if sl_size s = sl_size other
      then if sl_empty s then Inr True
           else res_bind (sl_front s) (\<lambda>c. res_bind (sl_front other) (\<lambda>c'.
                  if c = c'
                  then res_bind (sl_drop_front s 1) (\<lambda>s'.
                         res_bind (sl_drop_front other 1) (\<lambda>other'. sl_eq s' other'))
                  else Inr False))
      else Inr False)"
  by pat_completeness auto
termination
  by (relation "measure (\<lambda>(s, _). length s)")
    (auto simp: sl_drop_front_def split: if_splits dest: sl_not_empty)

definition sl_startswith :: "literal \<Rightarrow> literal \<Rightarrow> bool res" where
  "sl_startswith s other =
     (if sl_size s \<ge> sl_size other
      then res_bind (sl_take_front s (sl_size other)) (\<lambda>s'. sl_eq s' other)
      else Inr False)"

function sl_contains_char :: "literal \<Rightarrow> char \<Rightarrow> bool res" where
  "sl_contains_char s c =
     (if \<not> sl_empty s
      then res_bind (sl_front s) (\<lambda>c'.
             if c' = c then Inr True
             else res_bind (sl_drop_front s 1) (\<lambda>s'. sl_contains_char s' c))
      else Inr False)"
  by pat_completeness auto
termination
  by (relation "measure (\<lambda>(s, _). length s)")
    (auto simp: sl_drop_front_def split: if_splits dest: sl_not_empty)

function sl_contains :: "literal \<Rightarrow> literal \<Rightarrow> bool res" where
  "sl_contains s other =
     res_bind (sl_startswith s other) (\<lambda>b.
       if b then Inr True
       else if \<not> sl_empty s
       then res_bind (sl_drop_front s 1) (\<lambda>s'. sl_contains s' other)
       else Inr False)"
  by pat_completeness auto
termination
  by (relation "measure (\<lambda>(s, _). length s)")
    (auto simp: sl_drop_front_def split: if_splits dest: sl_not_empty)

declare sl_eq.simps [simp del] sl_contains_char.simps [simp del] sl_contains.simps [simp del]

lemma sl_drop_front_shorter: "sl_drop_front s 1 = Inr s' \<Longrightarrow> length s' < length s"
  by (cases s) (auto simp: sl_drop_front_def sl_size_def split: if_splits)

function sl_find :: "literal \<Rightarrow> literal \<Rightarrow> u64 res" where
  "sl_find s other =
     res_bind (sl_contains s other) (\<lambda>b.
       if \<not> b then Inr (- 1)
       else res_bind (sl_startswith s other) (\<lambda>b'.
         if b' then Inr 0
         else res_bind (sl_drop_front s 1) (\<lambda>s'. res_bind (sl_find s' other) (\<lambda>i. Inr (1 + i)))))"
  by pat_completeness auto
termination
  by (relation "measure (\<lambda>(s, _). length s)")
    (auto simp: sl_drop_front_shorter)

declare sl_find.simps [simp del]

definition is_retval :: "literal \<Rightarrow> bool res" where
  "is_retval t =
     res_bind (sl_contains t ''&'') (\<lambda>b.
       if b then res_bind (sl_contains t ''const'') (\<lambda>b'. Inr (\<not> b')) else Inr False)"

section \<open>Correctness\<close>

text \<open>Every literal of a program is shorter than \<open>size_t\<close> can count.\<close>

abbreviation literal_ok :: "literal \<Rightarrow> bool" where
  "literal_ok s \<equiv> length s < 2 ^ 64"

lemma unat_sl_size: "literal_ok s \<Longrightarrow> unat (sl_size s) = length s"
  by (simp add: sl_size_def unat_of_nat take_bit_nat_eq_self)

lemma sl_size_le: "literal_ok s \<Longrightarrow> literal_ok t \<Longrightarrow> sl_size s \<le> sl_size t \<longleftrightarrow> length s \<le> length t"
  by (simp add: word_le_nat_alt unat_sl_size)

lemma sl_size_eq: "literal_ok s \<Longrightarrow> literal_ok t \<Longrightarrow> sl_size s = sl_size t \<longleftrightarrow> length s = length t"
  by (metis unat_sl_size sl_size_def)

lemma sl_empty_iff: "literal_ok s \<Longrightarrow> sl_empty s \<longleftrightarrow> s = []"
  using sl_size_eq [of s "[]"] by (auto simp: sl_empty_def sl_size_def)

lemma sl_drop_front_1: "literal_ok (c # s) \<Longrightarrow> sl_drop_front (c # s) 1 = Inr s"
  using unat_sl_size [of "c # s"] by (simp add: sl_drop_front_def word_le_nat_alt)

lemma sl_eq_correct: "literal_ok s \<Longrightarrow> literal_ok t \<Longrightarrow> sl_eq s t = Inr (s = t)"
proof (induction s arbitrary: t)
  case Nil
  then show ?case using sl_size_eq [of "[]" t] sl_empty_iff [of "[]"]
    by (subst sl_eq.simps) auto
next
  case (Cons c s)
  show ?case
  proof (cases t)
    case Nil
    with Cons.prems show ?thesis using sl_size_eq [of "c # s" "[]"]
      by (subst sl_eq.simps) simp
  next
    case (Cons d u)
    have "sl_eq s u = Inr (s = u)"
      using Cons.IH [of u] Cons.prems Cons by simp
    then show ?thesis
      using Cons.prems Cons sl_size_eq [of "c # s" "d # u"] sl_empty_iff [of "c # s"]
        sl_empty_iff [of "d # u"] sl_drop_front_1 [of c s] sl_drop_front_1 [of d u]
      by (subst sl_eq.simps) (auto simp: sl_front_def)
  qed
qed

lemma sl_take_front_correct:
  assumes "literal_ok s" and "n \<le> length s"
  shows "sl_take_front s (word_of_nat n) = Inr (take n s)"
proof -
  have n: "unat (word_of_nat n :: u64) = n"
    using assms by (simp add: unat_of_nat take_bit_nat_eq_self)
  have "unat (sl_size s - word_of_nat n) = length s - n"
    using assms n unat_sl_size [OF assms(1)] by (simp add: unat_sub_if')
  moreover from this have "sl_size s - word_of_nat n \<le> sl_size s"
    using unat_sl_size [OF assms(1)] by (simp add: word_le_nat_alt)
  moreover have "word_of_nat n = sl_size s \<Longrightarrow> n = length s"
    using n unat_sl_size [OF assms(1)] by metis
  ultimately show ?thesis
    using assms(2) by (auto simp: sl_take_front_def sl_drop_back_def)
qed

lemma sl_startswith_correct:
  assumes "literal_ok s" and "literal_ok t"
  shows "sl_startswith s t = Inr (prefix t s)"
proof (cases "length t \<le> length s")
  case True
  then have "sl_take_front s (sl_size t) = Inr (take (length t) s)"
    using sl_take_front_correct [OF assms(1)] by (simp add: sl_size_def)
  moreover have "take (length t) s = t \<longleftrightarrow> prefix t s"
    by (auto simp: prefix_def intro: append_take_drop_id [symmetric]) (metis append_take_drop_id)
  ultimately show ?thesis
    using True assms by (simp add: sl_startswith_def sl_size_le sl_eq_correct)
next
  case False
  with assms show ?thesis
    using prefix_length_le by (auto simp: sl_startswith_def sl_size_le)
qed

lemma sl_contains_correct: "literal_ok s \<Longrightarrow> literal_ok t \<Longrightarrow> sl_contains s t = Inr (sublist t s)"
proof (induction s)
  case Nil
  then show ?case using sl_empty_iff [of "[]"]
    by (subst sl_contains.simps) (auto simp: sl_startswith_correct)
next
  case (Cons c s)
  then show ?case
    using sl_empty_iff [of "c # s"] sl_drop_front_1 [of c s]
    by (subst sl_contains.simps) (auto simp: sl_startswith_correct sublist_Cons_right)
qed

lemma sl_contains_char_correct: "literal_ok s \<Longrightarrow> sl_contains_char s c = Inr (c \<in> set s)"
proof (induction s)
  case Nil
  then show ?case using sl_empty_iff [of "[]"] by (subst sl_contains_char.simps) simp
next
  case (Cons d s)
  then show ?case
    using sl_empty_iff [of "d # s"] sl_drop_front_1 [of d s]
    by (subst sl_contains_char.simps) (auto simp: sl_front_def)
qed

lemma sl_find_correct:
  assumes "literal_ok s" and "literal_ok t" and "sublist t s"
  shows "\<exists>i. sl_find s t = Inr (word_of_nat i) \<and> prefix t (drop i s) \<and>
    (\<forall>j<i. \<not> prefix t (drop j s)) \<and> i \<le> length s"
  using assms
proof (induction s)
  case Nil
  then show ?case
    by (subst sl_find.simps) (auto simp: sl_contains_correct sl_startswith_correct)
next
  case (Cons c s)
  note find = sl_find.simps [of "c # s" t]
  show ?case
  proof (cases "prefix t (c # s)")
    case True
    then show ?thesis
      using Cons.prems by (intro exI [of _ 0]) (simp add: find sl_contains_correct sl_startswith_correct)
  next
    case False
    then have "sublist t s" using Cons.prems(3) by (simp add: sublist_Cons_right)
    then obtain i where i: "sl_find s t = Inr (word_of_nat i)" "prefix t (drop i s)"
      "\<forall>j<i. \<not> prefix t (drop j s)" "i \<le> length s"
      using Cons.IH Cons.prems(1,2) by auto
    have "\<not> prefix t (drop j (c # s))" if "j < Suc i" for j
      using that False i(3) by (cases j) auto
    moreover have "sl_find (c # s) t = Inr (word_of_nat (Suc i))"
      using Cons.prems False i(1) sl_empty_iff [of "c # s"] sl_drop_front_1 [of c s]
      by (simp add: find sl_contains_correct sl_startswith_correct)
    ultimately show ?thesis
      using i(2,4) by (intro exI [of _ "Suc i"]) simp
  qed
qed

lemma sl_find_missing:
  "literal_ok s \<Longrightarrow> literal_ok t \<Longrightarrow> \<not> sublist t s \<Longrightarrow> sl_find s t = Inr (- 1)"
  by (subst sl_find.simps) (simp add: sl_contains_correct)

lemma is_retval_correct:
  "literal_ok t \<Longrightarrow> is_retval t = Inr (CHR ''&'' \<in> set t \<and> \<not> sublist ''const'' t)"
proof -
  assume t: "literal_ok t"
  have "sublist [x] t \<longleftrightarrow> x \<in> set t" for x
    by (induction t) (auto simp: sublist_Cons_right)
  with t show ?thesis by (simp add: is_retval_def sl_contains_correct)
qed

section \<open>Properties\<close>

text \<open>
  C29 Searching in literals: \<open>contains\<close> decides whether the other literal occurs, without throwing,
  and \<open>find\<close> returns the first position at which it does, or the largest \<open>size_t\<close>.
\<close>

theorem sl_search_correct:
  assumes "length s < 2 ^ 64" and "length t < 2 ^ 64"
  shows "sl_contains s t = Inr (sublist t s) \<and>
    (if sublist t s
     then \<exists>i\<le>length s. sl_find s t = Inr (word_of_nat i) \<and> prefix t (drop i s) \<and>
            (\<forall>j. prefix t (drop j s) \<longrightarrow> i \<le> j)
     else sl_find s t = Inr (- 1))"
proof (cases "sublist t s")
  case True
  from sl_find_correct [OF assms True] obtain i where
    "sl_find s t = Inr (word_of_nat i)" "prefix t (drop i s)" "\<forall>j<i. \<not> prefix t (drop j s)" "i \<le> length s"
    by blast
  then have "i \<le> length s \<and> sl_find s t = Inr (word_of_nat i) \<and> prefix t (drop i s) \<and>
      (\<forall>j. prefix t (drop j s) \<longrightarrow> i \<le> j)"
    by (meson not_less)
  with True show ?thesis using assms by (auto simp: sl_contains_correct)
qed (use assms in \<open>simp add: sl_contains_correct sl_find_missing\<close>)

theorem sl_search_correct_witness:
  "sl_contains ''const int &'' ''int'' = Inr True \<and> sl_find ''const int &'' ''bool'' = Inr (- 1)"
  using sl_search_correct [of "''const int &''" "''int''"] sl_search_correct [of "''const int &''" "''bool''"]
  by (simp add: sublist_Cons_right)

text \<open>
  A parameter is passed back in the answer exactly if its type's spelling has an ampersand and
  nowhere the letters \<open>const\<close>; the test never throws. So a reference to a type whose name merely
  contains these letters is not passed back.
\<close>

theorem is_retval_spelling:
  assumes "length t < 2 ^ 64"
  shows "is_retval t = Inr (CHR ''&'' \<in> set t \<and> \<not> sublist ''const'' t)"
  using is_retval_correct [OF assms] .

theorem is_retval_spelling_witness:
  "is_retval ''std::string &'' = Inr True \<and> is_retval ''const std::string &'' = Inr False \<and>
   is_retval ''constraint_t &'' = Inr False"
  using is_retval_spelling [of "''std::string &''"] is_retval_spelling [of "''const std::string &''"]
    is_retval_spelling [of "''constraint_t &''"]
  by (simp add: sublist_Cons_right)

end
