(* ===== verification/RetvalSerialisation.thy ===== *)
theory RetvalSerialisation
  imports SerialisationRoundtrip ConstHelpers
begin

text \<open>
  Answers of remote calls (\<open>lib/retvalserialisation.h\<close>): a return value followed by those
  parameters that are passed back. A parameter is its type and the flag \<open>is_retval\<close> computes from
  its spelling. \<open>serialiseAnswer\<close> returns \<open>out.str()\<close> while its \<open>ObjectSer\<close> is still
  alive, so the text it returns has no closing brace; the model returns the object's text before
  \<open>ObjectSer_destroy\<close>.
\<close>

section \<open>Reading an answer\<close>

definition OptionalDeserialiser ::
  "bool \<Rightarrow> cpp_type \<Rightarrow> istream \<Rightarrow> cpp_value \<Rightarrow> (cpp_value \<times> istream) res" where
  "OptionalDeserialiser deser T ser t = (if deser then deserialize T t ser else Inr (t, ser))"

definition parseAnswer0 :: "cpp_type \<Rightarrow> istream \<Rightarrow> cpp_value \<Rightarrow> cpp_value res" where
  "parseAnswer0 TR st tr =
     res_bind (ObjectDeser st) (\<lambda>(deser, _).
     res_bind (deserialize TR tr deser) (\<lambda>(tr', _).
     Inr tr'))"

definition parseAnswer1 ::
  "cpp_type \<Rightarrow> cpp_type \<times> bool \<Rightarrow> istream \<Rightarrow> cpp_value \<Rightarrow> cpp_value \<Rightarrow> (cpp_value \<times> cpp_value) res" where
  "parseAnswer1 TR P1 st tr t1 =
     res_bind (ObjectDeser st) (\<lambda>(deser, _).
     res_bind (deserialize TR tr deser) (\<lambda>(tr', d0).
     res_bind (OptionalDeserialiser (snd P1) (fst P1) d0 t1) (\<lambda>(t1', d1).
     Inr (tr', t1'))))"

definition parseAnswer2 ::
  "cpp_type \<Rightarrow> cpp_type \<times> bool \<Rightarrow> cpp_type \<times> bool \<Rightarrow> istream \<Rightarrow> cpp_value \<Rightarrow> cpp_value \<Rightarrow> cpp_value \<Rightarrow>
   (cpp_value \<times> cpp_value \<times> cpp_value) res" where
  "parseAnswer2 TR P1 P2 st tr t1 t2 =
     res_bind (ObjectDeser st) (\<lambda>(deser, _).
     res_bind (deserialize TR tr deser) (\<lambda>(tr', d0).
     res_bind (OptionalDeserialiser (snd P1) (fst P1) d0 t1) (\<lambda>(t1', d1).
     res_bind (OptionalDeserialiser (snd P2) (fst P2) d1 t2) (\<lambda>(t2', d2).
     Inr (tr', t1', t2')))))"

definition parseAnswer3 ::
  "cpp_type \<Rightarrow> cpp_type \<times> bool \<Rightarrow> cpp_type \<times> bool \<Rightarrow> cpp_type \<times> bool \<Rightarrow> istream \<Rightarrow>
   cpp_value \<Rightarrow> cpp_value \<Rightarrow> cpp_value \<Rightarrow> cpp_value \<Rightarrow>
   (cpp_value \<times> cpp_value \<times> cpp_value \<times> cpp_value) res" where
  "parseAnswer3 TR P1 P2 P3 st tr t1 t2 t3 =
     res_bind (ObjectDeser st) (\<lambda>(deser, _).
     res_bind (deserialize TR tr deser) (\<lambda>(tr', d0).
     res_bind (OptionalDeserialiser (snd P1) (fst P1) d0 t1) (\<lambda>(t1', d1).
     res_bind (OptionalDeserialiser (snd P2) (fst P2) d1 t2) (\<lambda>(t2', d2).
     res_bind (OptionalDeserialiser (snd P3) (fst P3) d2 t3) (\<lambda>(t3', d3).
     Inr (tr', t1', t2', t3'))))))"

section \<open>Writing an answer\<close>

definition OptionalSerialiser :: "bool \<Rightarrow> object_ser \<Rightarrow> cpp_value \<Rightarrow> object_ser" where
  "OptionalSerialiser ser obj t = (if ser then ObjectSer_put serialize obj t else obj)"

definition serialiseAnswer ::
  "bool \<Rightarrow> bool \<Rightarrow> bool \<Rightarrow> cpp_value \<Rightarrow> cpp_value \<Rightarrow> cpp_value \<Rightarrow> cpp_value \<Rightarrow> string" where
  "serialiseAnswer r1 r2 r3 tr t1 t2 t3 =
     (let ser0 = ObjectSer_put serialize (ObjectSer []) tr;
          ser1 = OptionalSerialiser r1 ser0 t1;
          ser2 = OptionalSerialiser r2 ser1 t2;
          ser3 = OptionalSerialiser r3 ser2 t3
      in os_out ser3)"

section \<open>A text codec and the cut that the missing brace causes\<close>

text \<open>
  What a reader of fields relies on: a value is read back whole where the next value or the end
  of the text follows it. \<open>ObjectDeser\<close> removes the last character of its token, meant to be the
  closing brace; where the brace is missing it is the last character of the last field that goes. A
  \<open>cut_codec\<close> is a codec for which this does no harm.
\<close>

locale text_codec =
  fixes enc :: "'a \<Rightarrow> string"
    and dec :: "'t \<Rightarrow> istream \<Rightarrow> ('a \<times> istream) res"
    and ok :: "'t \<Rightarrow> 'a \<Rightarrow> bool"
  assumes dec_enc: "ok t x \<Longrightarrow> follows r \<Longrightarrow> dec t (stream_at (enc x @ r)) = Inr (x, after_token r)"
    and enc_nonempty: "ok t x \<Longrightarrow> enc x \<noteq> []"
    and enc_hd: "ok t x \<Longrightarrow> hd (enc x) \<noteq> CHR '',''"
begin

lemma dec_before_comma:
  assumes "ok t x" and "s \<noteq> []" and "hd s \<noteq> CHR '',''"
  shows "dec t (stream_at (enc x @ CHR '','' # s)) = Inr (x, stream_at s)"
  using dec_enc [OF assms(1), of "CHR '','' # s"] assms(2,3) by (simp add: follows_def)

lemma dec_last: "ok t x \<Longrightarrow> dec t (stream_at (enc x)) = Inr (x, stream_end)"
  using dec_enc [of t x "[]"] by simp

end

locale cut_codec = text_codec +
  assumes dec_cut: "ok t x \<Longrightarrow> dec t (stream_at (butlast (enc x))) = Inr (x, stream_end)"
    and enc_two: "ok t x \<Longrightarrow> 2 \<le> length (enc x)"
begin

lemma butlast_enc: "ok t x \<Longrightarrow> butlast (enc x) \<noteq> [] \<and> hd (butlast (enc x)) \<noteq> CHR '',''"
  using enc_two [of t x] enc_hd [of t x] by (cases "enc x" rule: rev_cases) (auto simp: hd_append split: if_splits)

end

interpretation value_codec: text_codec text_of "\<lambda>t. deserialize t (default_value t)" wf_value
  by unfold_locales (simp_all add: deserialize_text_of text_of_hd)

definition string_text :: "string \<Rightarrow> string" where
  "string_text s = serialize_string [] s"

interpretation string_codec: cut_codec string_text "\<lambda>_ :: unit. deserialize_string" "\<lambda>_. plain_string"
proof
  fix t :: unit and x r
  assume x: "plain_string x"
  then have enc: "string_text x = text_of (VString x)"
    by (simp add: string_text_def serialize_string_escape)
  show "string_text x \<noteq> []" "hd (string_text x) \<noteq> CHR '',''" "2 \<le> length (string_text x)"
    by (simp_all add: enc)
  have "butlast (string_text x) = dquote # x" "open_text False x"
    using x by (simp_all add: enc plain_string_def escape_id butlast_append open_text_no_quote)
  then show "deserialize_string (stream_at (butlast (string_text x))) = Inr (x, stream_end)"
    by (simp add: deserialize_string_def nextToken_quote_unterminated)
  show "follows r \<Longrightarrow> deserialize_string (stream_at (string_text x @ r)) = Inr (x, after_token r)"
    using x nextToken_text_of [of TString "VString x" r]
    by (simp add: deserialize_string_def string_text_def serialize_string_escape)
qed

section \<open>Fields of an object that is never closed\<close>

text \<open>
  What \<open>parseAnswer\<close> does for any number of fields: each flagged field is read in turn, the
  others keep their value. \<open>returned\<close> are the values that take part.
\<close>

fun opt_fields ::
  "(cpp_type \<times> bool) list \<Rightarrow> cpp_value list \<Rightarrow> istream \<Rightarrow> (cpp_value list \<times> istream) res" where
  "opt_fields (P # Ps) (c # cs) st =
     res_bind (OptionalDeserialiser (snd P) (fst P) st c) (\<lambda>(v, st1).
     res_bind (opt_fields Ps cs st1) (\<lambda>(vs, st2). Inr (v # vs, st2)))"
| "opt_fields _ _ st = Inr ([], st)"

fun returned :: "(cpp_type \<times> bool) list \<Rightarrow> cpp_value list \<Rightarrow> cpp_value list" where
  "returned (P # Ps) (v # vs) = (if snd P then v # returned Ps vs else returned Ps vs)"
| "returned _ _ = []"

lemma parseAnswer3_fields:
  "parseAnswer3 TR P1 P2 P3 st tr t1 t2 t3 =
     res_bind (ObjectDeser st) (\<lambda>(deser, _).
     res_bind (opt_fields [(TR, True), P1, P2, P3] [tr, t1, t2, t3] deser)
       (\<lambda>(vs, _). Inr (vs ! 0, vs ! 1, vs ! 2, vs ! 3)))"
  by (auto simp: parseAnswer3_def OptionalDeserialiser_def res_bind_def split: sum.split prod.split)

lemma serialiseAnswer_text:
  "serialiseAnswer r1 r2 r3 tr v1 v2 v3 =
     CHR ''{'' # comma_sep (map text_of (returned [(TR, True), (T1, r1), (T2, r2), (T3, r3)] [tr, v1, v2, v3]))"
  using ObjectSer_fields_text [of "[]"]
    ObjectSer_fold_comma_sep [of "tr # _" serialize text_of "ObjectSer []"]
  by (simp add: serialiseAnswer_def OptionalSerialiser_def ObjectSer_put_def ObjectSer_def
      serialize_text_of)

text \<open>
  A type whose variables are overwritten when they are read: everything but a vector, which is
  appended to.
\<close>

fun overwritten :: "cpp_type \<Rightarrow> bool" where
  "overwritten (TVector t) = False"
| "overwritten (TObject ts) = (\<forall>t\<in>set ts. overwritten t)"
| "overwritten _ = True"

lemma deserialize_overwritten:
  "overwritten t \<Longrightarrow> deserialize t cur st = deserialize t (default_value t) st"
  "\<forall>t\<in>set ts. overwritten t \<Longrightarrow>
    deserialize_fields ts curs st = deserialize_fields ts (map default_value ts) st"
proof (induction t cur st and ts curs st rule: deserialize_deserialize_fields.induct)
  case (6 t ts curs inn)
  then have "deserialize t (case curs of [] \<Rightarrow> default_value t | cur # _ \<Rightarrow> cur) inn =
      deserialize t (default_value t) inn" by simp
  moreover have "deserialize_fields ts (tl curs) inn1 = deserialize_fields ts (map default_value ts) inn1"
    if "deserialize t (default_value t) inn = Inr (f, inn1)" for f inn1
    using 6 that calculation by auto
  ultimately show ?case
    by (simp cong: res_bind_cong) (auto simp: res_bind_def split: sum.split)
next
  case (4 ts cur st)
  obtain inn st1 where "ObjectDeser st = Inr (inn, st1)" by (rule ObjectDeser_total)
  with 4 show ?case by simp
qed auto

lemma ObjectDeser_open:
  assumes "nesting (CHR ''{'') (CHR ''}'') 0 w = Some j" and "2 \<le> length w"
  shows "ObjectDeser (istringstream (CHR ''{'' # w)) = Inr (stream_at (butlast w), stream_end)"
  using nextToken_scope_unterminated [of "CHR ''{''" "CHR ''}''" w j] assms
  by (cases w) (auto simp: ObjectDeser_def istringstream_def)

lemma ObjectDeser_open_short:
  assumes "nesting (CHR ''{'') (CHR ''}'') 0 w = Some j" and "length w < 2"
  shows "ObjectDeser (istringstream (CHR ''{'' # w)) = Inr (stream_at [], stream_end)"
  using nextToken_scope_unterminated [of "CHR ''{''" "CHR ''}''" w j] assms
  by (simp add: ObjectDeser_def istringstream_def)

text \<open>The stream over the fields \<open>fs\<close> that lost its last character.\<close>

definition cut_stream :: "cpp_value list \<Rightarrow> istream" where
  "cut_stream fs = (if fs = [] then stream_end else stream_at (butlast (comma_sep (map text_of fs))))"

definition ends_in_string :: "cpp_value list \<Rightarrow> bool" where
  "ends_in_string fs \<longleftrightarrow> fs \<noteq> [] \<and> (\<exists>s. last fs = VString s)"

lemma comma_sep_cut:
  assumes "ends_in_string fs"
  shows "2 \<le> length (comma_sep (map text_of fs))"
    "hd (butlast (comma_sep (map text_of fs))) \<noteq> CHR '',''"
proof -
  have l: "2 \<le> length (comma_sep (map text_of fs))"
    using assms
  proof (induction fs)
    case (Cons f fs)
    then show ?case
      by (cases "fs = []") (auto simp: ends_in_string_def comma_sep_Cons)
  qed (simp add: ends_in_string_def)
  then show "2 \<le> length (comma_sep (map text_of fs))" .
  obtain x y zs where "comma_sep (map text_of fs) = x # y # zs"
    using l by (cases "comma_sep (map text_of fs)"; cases "tl (comma_sep (map text_of fs))") auto
  with assms comma_sep_hd [of fs] show "hd (butlast (comma_sep (map text_of fs))) \<noteq> CHR '',''"
    by (auto simp: ends_in_string_def)
qed

lemma deserialize_cut_stream:
  assumes "wf_value t f" and "fs = [] \<Longrightarrow> \<exists>s. f = VString s" and "fs \<noteq> [] \<Longrightarrow> ends_in_string fs"
  shows "deserialize t (default_value t) (cut_stream (f # fs)) = Inr (f, cut_stream fs)"
proof (cases "fs = []")
  case True
  with assms obtain s where "f = VString s" "t = TString" "plain_string s" by (cases t) auto
  then show ?thesis
    using True string_codec.dec_cut [of s]
    by (simp add: cut_stream_def string_text_def serialize_string_escape)
next
  case False
  let ?r = "butlast (comma_sep (map text_of fs))"
  have r: "?r \<noteq> []" "hd ?r \<noteq> CHR '',''"
    using comma_sep_cut [OF assms(3) [OF False]] by (cases "comma_sep (map text_of fs)", auto)
  then have "follows (CHR '','' # ?r)" by (simp add: follows_def)
  with deserialize_text_of [OF assms(1)] False show ?thesis
    by (simp add: cut_stream_def comma_sep_Cons butlast_append comma_sep_eq_Nil)
qed

fun readable :: "(cpp_type \<times> bool) list \<Rightarrow> cpp_value list \<Rightarrow> bool" where
  "readable (P # Ps) (v # vs) =
     ((snd P \<longrightarrow> wf_value (fst P) v \<and> overwritten (fst P)) \<and> readable Ps vs)"
| "readable Ps vs \<longleftrightarrow> Ps = [] \<and> vs = []"

fun merged :: "(cpp_type \<times> bool) list \<Rightarrow> cpp_value list \<Rightarrow> cpp_value list \<Rightarrow> cpp_value list" where
  "merged (P # Ps) (v # vs) (c # cs) = (if snd P then v else c) # merged Ps vs cs"
| "merged _ _ _ = []"

lemma ends_in_string_Cons: "ends_in_string (f # fs) \<longleftrightarrow>
    (if fs = [] then \<exists>s. f = VString s else ends_in_string fs)"
  by (simp add: ends_in_string_def)

lemma opt_fields_cut:
  assumes "readable Ps vs" and "length cs = length Ps"
    and "returned Ps vs = [] \<or> ends_in_string (returned Ps vs)"
  shows "opt_fields Ps cs (cut_stream (returned Ps vs)) = Inr (merged Ps vs cs, stream_end)"
  using assms
proof (induction Ps vs arbitrary: cs rule: readable.induct)
  case (1 P Ps v vs)
  then obtain c cs' where cs: "cs = c # cs'" by (cases cs) auto
  have rest: "opt_fields Ps cs' (cut_stream (returned Ps vs)) = Inr (merged Ps vs cs', stream_end)"
    using 1 cs by (auto simp: ends_in_string_Cons split: if_splits)
  show ?case
  proof (cases "snd P")
    case True
    with 1 have "deserialize (fst P) c (cut_stream (v # returned Ps vs)) = Inr (v, cut_stream (returned Ps vs))"
      by (subst deserialize_overwritten(1))
        (auto intro!: deserialize_cut_stream simp: ends_in_string_Cons split: if_splits)
    with True cs rest show ?thesis by (simp add: OptionalDeserialiser_def)
  qed (use cs rest in \<open>simp add: OptionalDeserialiser_def\<close>)
qed (auto simp: cut_stream_def)

lemma readable_wf: "readable Ps vs \<Longrightarrow> f \<in> set (returned Ps vs) \<Longrightarrow> \<exists>t. wf_value t f"
  by (induction Ps vs rule: readable.induct) (auto split: if_splits)

text \<open>
  The object text both sides of a call write: never closed, so it is read through \<open>cut_stream\<close>.
\<close>

lemma ObjectDeser_open_fields:
  assumes "readable Ps vs" and "ends_in_string (returned Ps vs)"
  shows "ObjectDeser (istringstream (CHR ''{'' # comma_sep (map text_of (returned Ps vs)))) =
    Inr (cut_stream (returned Ps vs), stream_end)"
proof -
  have "balanced (CHR ''{'') (CHR ''}'') (comma_sep (map text_of (returned Ps vs)))"
    using readable_wf [OF assms(1)] by (intro balanced_texts) auto
  from ObjectDeser_open [OF this comma_sep_cut(1) [OF assms(2)]] assms(2) show ?thesis
    by (auto simp: cut_stream_def ends_in_string_def)
qed

lemmas open_object_simps = opt_fields_cut ObjectDeser_open_fields

lemma parseAnswer3_serialiseAnswer:
  assumes "readable [(TR, True), (T1, r1), (T2, r2), (T3, r3)] [tr, v1, v2, v3]"
    and "ends_in_string (returned [(TR, True), (T1, r1), (T2, r2), (T3, r3)] [tr, v1, v2, v3])"
  shows "parseAnswer3 TR (T1, r1) (T2, r2) (T3, r3)
      (istringstream (serialiseAnswer r1 r2 r3 tr v1 v2 v3)) tr0 c1 c2 c3 =
    Inr (tr, if r1 then v1 else c1, if r2 then v2 else c2, if r3 then v3 else c3)"
  unfolding parseAnswer3_fields serialiseAnswer_text [of r1 r2 r3 tr v1 v2 v3 TR T1 T2 T3]
    ObjectDeser_open_fields [OF assms]
  using opt_fields_cut [OF assms(1), of "[tr0, c1, c2, c3]"] assms(2)
  by (simp del: opt_fields.simps returned.simps)

section \<open>Properties\<close>



lemma nat_to_string_butlast: "10 \<le> n \<Longrightarrow> butlast (nat_to_string n) = nat_to_string (n div 10)"
  by (subst nat_to_string.simps) simp

text \<open>
  C35 An answer that ends in a non-negative number loses its last digit, because the object of the
  answer is never closed and its reader takes the digit for the closing brace; a single
  digit makes the caller throw \<open>std::invalid_argument\<close>.
\<close>

theorem answer_int_loses_digit:
  assumes "0 \<le> sint (k :: u32)"
  shows "parseAnswer3 TInt (T1, False) (T2, False) (T3, False)
      (istringstream (serialiseAnswer False False False (VInt k) v1 v2 v3)) tr0 c1 c2 c3 =
    (if sint k < 10 then Inl Invalid_argument
     else Inr (VInt (word_of_int (sint k div 10)), c1, c2, c3))"
proof -
  let ?w = "to_string (sint k)"
  have txt_eq: "serialiseAnswer False False False (VInt k) v1 v2 v3 = CHR ''{'' # ?w"
    by (simp add: serialiseAnswer_text [of _ _ _ _ _ _ _ TInt T1 T2 T3])
  have nest: "nesting (CHR ''{'') (CHR ''}'') 0 ?w = Some 0"
    using balanced_text_of [of TInt "VInt k" "CHR ''{''" "CHR ''}''"] by simp
  show ?thesis
  proof (cases "sint k < 10")
    case True
    then have "length ?w < 2" using assms
      by (simp add: to_string_def) (subst nat_to_string.simps, simp)
    from ObjectDeser_open_short [OF nest this] True show ?thesis
      by (simp add: parseAnswer3_def txt_eq deserialize_int_def nextToken_def stoi_def)
  next
    case False
    let ?d = "word_of_int (sint k div 10) :: u32"
    have d: "sint ?d = sint k div 10" using assms sint_lt [of k]
      by (simp add: sint_sbintrunc' signed_take_bit_int_eq_self)
    have b: "butlast ?w = text_of (VInt ?d)"
      using False assms d by (simp add: to_string_def nat_to_string_butlast nat_div_distrib)
    have "2 \<le> length ?w"
      using arg_cong [OF b, of length] to_string_nonempty [of "sint ?d"] by (cases "text_of (VInt ?d)") auto
    from ObjectDeser_open [OF nest this] show ?thesis
      using deserialize_text_of [of TInt "VInt ?d" "[]"] False deserialize_overwritten(1) [of TInt tr0]
      by (simp add: parseAnswer3_def txt_eq b OptionalDeserialiser_def del: text_of.simps deserialize.simps)
  qed
qed

theorem answer_int_loses_digit_witness:
  "parseAnswer3 TInt (TInt, False) (TInt, False) (TInt, False)
     (istringstream (serialiseAnswer False False False (VInt 55) (VInt 1) (VInt 2) (VInt 3)))
     (VInt 0) (VInt 1) (VInt 2) (VInt 3) = Inr (VInt 5, VInt 1, VInt 2, VInt 3)"
  using answer_int_loses_digit [of 55] by simp

end
