(* ===== verification/RmiPacket.thy ===== *)
theory RmiPacket
  imports RetvalSerialisation
begin

text \<open>
  The request packet of a remote call (\<open>lib/rmipacket.h\<close>): the name of the handler, the
  signature of the method, a request number and the serialised arguments.
\<close>

record RMIPacket =
  handlerName :: string
  signature :: string
  requestId :: u32
  data :: string

definition RMIPacket_init :: RMIPacket where
  "RMIPacket_init = \<lparr>handlerName = [], signature = [], requestId = - 1, data = []\<rparr>"

definition RMIPacket_serialize :: "string \<Rightarrow> RMIPacket \<Rightarrow> string" where
  "RMIPacket_serialize out pkg =
     ObjectSer_destroy
       (ObjectSer_put serialize_string
         (ObjectSer_put serialize_int
           (ObjectSer_put serialize_string
             (ObjectSer_put serialize_string (ObjectSer out) (handlerName pkg))
             (signature pkg))
           (requestId pkg))
         (data pkg))"

definition RMIPacket_deserialize :: "istream \<Rightarrow> RMIPacket \<Rightarrow> (RMIPacket \<times> istream) res" where
  "RMIPacket_deserialize st pkg =
     res_bind (ObjectDeser st) (\<lambda>(obj, st1).
      res_bind (deserialize_string obj) (\<lambda>(h, obj1).
      res_bind (deserialize_string obj1) (\<lambda>(s, obj2).
      res_bind (deserialize_int obj2) (\<lambda>(r, obj3).
      res_bind (deserialize_string obj3) (\<lambda>(d, obj4).
      Inr (pkg\<lparr>handlerName := h, signature := s, requestId := r, data := d\<rparr>, st1))))))"

lemma RMIPacket_serialize_text:
  "RMIPacket_serialize out pkg =
     out @ text_of (VObject [VString (handlerName pkg), VString (signature pkg), VInt (requestId pkg),
       VString (data pkg)])"
  by (simp add: RMIPacket_serialize_def ObjectSer_destroy_def ObjectSer_put_def ObjectSer_def
      serialize_int_def serialize_string_escape)

lemma RMIPacket_deserialize_fields:
  "RMIPacket_deserialize st pkg =
     res_bind (deserialize (TObject [TString, TString, TInt, TString]) (VObject []) st)
       (\<lambda>(v, st1). case v of
          VObject [VString h, VString s, VInt r, VString d] \<Rightarrow>
            Inr (pkg\<lparr>handlerName := h, signature := s, requestId := r, data := d\<rparr>, st1)
        | _ \<Rightarrow> Inl Invalid_argument)"
proof -
  obtain obj st1 where o: "ObjectDeser st = Inr (obj, st1)" by (rule ObjectDeser_total)
  show ?thesis
    by (cases "stoi (fst (nextToken (snd (nextToken (snd (nextToken obj))))))")
      (simp_all add: RMIPacket_deserialize_def o deserialize_string_def deserialize_int_def split_beta)
qed

lemma deserialize_no_vector_cur:
  "deserialize (TObject [TString, TString, TInt, TString]) (VObject []) st =
   deserialize (TObject [TString, TString, TInt, TString])
     (default_value (TObject [TString, TString, TInt, TString])) st"
  by simp

lemma RMIPacket_roundtrip_any:
  assumes "plain_string (handlerName pkg)" and "plain_string (signature pkg)"
    and "plain_string (data pkg)" and "follows r"
  shows "RMIPacket_deserialize (stream_at (RMIPacket_serialize [] pkg @ r)) pkg0 =
    Inr (pkg\<lparr>requestId := requestId pkg\<rparr>, after_token r)"
proof -
  let ?v = "VObject [VString (handlerName pkg), VString (signature pkg), VInt (requestId pkg),
       VString (data pkg)]"
  have "wf_value (TObject [TString, TString, TInt, TString]) ?v" using assms by simp
  from deserialize_text_of [OF this assms(4)] show ?thesis
    unfolding RMIPacket_deserialize_fields deserialize_no_vector_cur RMIPacket_serialize_text
    by (simp del: deserialize.simps default_value.simps text_of.simps)
qed

section \<open>The data of a request\<close>

lemma ObjectDeser_any:
  assumes "nesting (CHR ''{'') (CHR ''}'') 0 w = Some j" and "w \<noteq> []"
  shows "ObjectDeser (istringstream (CHR ''{'' # w @ ''}'')) = Inr (stream_at w, stream_end)"
proof (cases j)
  case 0
  with assms ObjectDeser_texts [of w "[]"] show ?thesis by (simp add: istringstream_def)
next
  case (Suc k)
  then have "nesting (CHR ''{'') (CHR ''}'') 0 (w @ ''}'') = Some k"
    using assms(1) by (simp add: nesting_append)
  moreover have "2 \<le> length (w @ ''}'')" using assms(2) by (cases w) auto
  ultimately show ?thesis using ObjectDeser_open [of "w @ ''}''" k] by (simp add: butlast_append)
qed

text \<open>
  The three fields in front of the data and the data itself: the data may open brackets it never
  closes, as the text of a call does, and is read with its quotes escaped.
\<close>

lemma RMIPacket_data_escaped:
  assumes "plain_string (handlerName pkg)" and "plain_string (signature pkg)"
    and "data pkg = [] \<or> last (data pkg) \<noteq> backslash"
    and "nesting (CHR ''{'') (CHR ''}'') 0 (escape (data pkg)) = Some j"
  shows "RMIPacket_deserialize (istringstream (RMIPacket_serialize [] pkg)) pkg0 =
    Inr (pkg\<lparr>data := escape (data pkg)\<rparr>, stream_end)"
proof -
  let ?fs = "[VString (handlerName pkg), VString (signature pkg), VInt (requestId pkg)]"
  let ?d = "text_of (VString (data pkg))"
  let ?w = "comma_sep (map text_of ?fs) @ CHR '','' # ?d"
  have wf: "wf_value TString (?fs ! 0)" "wf_value TString (?fs ! 1)" "wf_value TInt (?fs ! 2)"
    using assms(1,2) by simp_all
  have "balanced (CHR ''{'') (CHR ''}'') (comma_sep (map text_of ?fs))"
    using wf_fields_wf_value [of "[TString, TString, TInt]" ?fs] assms(1,2)
    by (intro balanced_texts) simp_all
  moreover have "nesting (CHR ''{'') (CHR ''}'') 0 (CHR '','' # ?d) = Some j"
    using assms(4) by (simp add: nesting_append)
  ultimately have "nesting (CHR ''{'') (CHR ''}'') 0 ?w = Some j"
    by (simp only: nesting_append option.case)
  from ObjectDeser_any [OF this] have obj:
    "ObjectDeser (istringstream (RMIPacket_serialize [] pkg)) = Inr (stream_at ?w, stream_end)"
    by (simp add: RMIPacket_serialize_text comma_sep_Cons)
  have "follows (CHR '','' # text_of v @ r)" for v r
    using text_of_hd [of v] by (auto simp: follows_def)
  note token = nextToken_text_of [OF wf(1) this] nextToken_text_of [OF wf(2) this]
    nextToken_text_of [OF wf(3) this, of "VString (data pkg)" "[]"]
  have "\<not> ends_escaped False (escape (data pkg))"
    using assms(3) by (auto simp: ends_escaped_escape)
  then have last: "nextToken (stream_at ?d) = (escape (data pkg), stream_end)"
    using nextToken_quote [OF open_text_escape, of "data pkg" "[]"] by simp
  show ?thesis
    using token(1) [of "VString (signature pkg)" "CHR '','' # text_of (VInt (requestId pkg)) @ CHR '','' # ?d"]
      token(2) [of "VInt (requestId pkg)" "CHR '','' # ?d"] token(3) last
    by (simp add: RMIPacket_deserialize_def obj deserialize_string_def deserialize_int_def comma_sep_Cons
        stoi_sint)
qed

text \<open>
  The texts a request can carry as its data: they do not end in a backslash, and no brace in them closes
  one that is not open in them. The texts of calls are such texts: they open one brace and never close it.
\<close>

definition carried :: "string \<Rightarrow> bool" where
  "carried dat \<longleftrightarrow> (dat = [] \<or> last dat \<noteq> backslash) \<and> nesting (CHR ''{'') (CHR ''}'') 0 dat \<noteq> None"

lemma nesting_escape: "p \<noteq> backslash \<Longrightarrow> q \<noteq> backslash \<Longrightarrow> nesting p q d (escape w) = nesting p q d w"
  by (induction w arbitrary: d) (auto split: nat.split)

lemma carried_plain: "plain_string dat \<Longrightarrow> carried dat"
  by (auto simp: plain_string_def carried_def)

lemma RMIPacket_carried:
  assumes "plain_string (handlerName pkg)" and "plain_string (signature pkg)" and "carried (data pkg)"
  shows "RMIPacket_deserialize (istringstream (RMIPacket_serialize [] pkg)) pkg0 =
    Inr (pkg\<lparr>data := escape (data pkg)\<rparr>, stream_end)"
proof -
  obtain j where "nesting (CHR ''{'') (CHR ''}'') 0 (data pkg) = Some j"
    using assms(3) by (auto simp: carried_def)
  then have "nesting (CHR ''{'') (CHR ''}'') 0 (escape (data pkg)) = Some j" by (simp add: nesting_escape)
  with assms show ?thesis by (intro RMIPacket_data_escaped) (auto simp: carried_def)
qed

lemma last_text_of: "last (text_of v) \<noteq> backslash"
proof (cases v)
  case (VInt k)
  have "last (to_string (sint k)) \<in> set (to_string (sint k))" by (intro last_in_set) simp
  with VInt to_string_chars show ?thesis by (fastforce simp: is_digit_def)
qed simp_all

lemma last_comma_sep: "vs \<noteq> [] \<Longrightarrow> last (comma_sep (map text_of vs)) \<noteq> backslash"
  by (induction vs) (auto simp: comma_sep_Cons comma_sep_eq_Nil last_append last_text_of)

lemma carried_open_object:
  assumes "vs \<noteq> []" and "\<forall>v\<in>set vs. \<exists>t. wf_value t v"
  shows "carried (CHR ''{'' # comma_sep (map text_of vs))"
proof -
  have "balanced (CHR ''{'') (CHR ''}'') (comma_sep (map text_of vs))"
    using assms(2) by (intro balanced_texts) auto
  from nesting_shift [OF this, of 1] show ?thesis
    using last_comma_sep [OF assms(1)] assms(1) by (simp add: carried_def comma_sep_eq_Nil)
qed

text \<open>
  A request packet whose three strings the format can carry is read back exactly, whatever was in
  the object before, both alone and in front of a further value.
\<close>

theorem RMIPacket_roundtrip:
  assumes "plain_string (handlerName pkg)" and "plain_string (signature pkg)"
    and "plain_string (data pkg)"
  shows "RMIPacket_deserialize (istringstream (RMIPacket_serialize [] pkg)) pkg0 = Inr (pkg, stream_end)"
  using RMIPacket_roundtrip_any [OF assms follows_Nil, of pkg0] by (simp add: istringstream_def)

theorem RMIPacket_roundtrip_witness:
  "RMIPacket_deserialize (istringstream (RMIPacket_serialize []
     \<lparr>handlerName = ''AdminHandler'', signature = ''addUser'', requestId = 7, data = ''{1,2}''\<rparr>))
     RMIPacket_init =
   Inr (\<lparr>handlerName = ''AdminHandler'', signature = ''addUser'', requestId = 7, data = ''{1,2}''\<rparr>,
     stream_end)"
  by (rule RMIPacket_roundtrip) (simp_all add: plain_string_def)

end
