(* ===== verification/Handlers.thy ===== *)
theory Handlers
  imports ThreadedClass RmiPacket
begin

text \<open>
  The server side of a remote call: \<open>NetInfo\<close> (\<open>lib/netinfo.h\<close>), \<open>HandlerBase\<close> with its
  registration macro (\<open>lib/handlerbase.h\<close>, \<open>lib/handlerbase.cpp\<close>) and
  \<open>HandlerManager\<close> (\<open>lib/handlermanager.h\<close>, \<open>lib/handlermanager.cpp\<close>).

  A stored \<open>std::function\<close> is a value of type \<open>'cb\<close>, an empty one is \<open>None\<close>. The object
  behind \<open>this\<close> is split in three: its thread, its function table, and \<open>handler_obj\<close>, the
  part a registered method can read and change (\<open>'s\<close> are the members of the derived class). A
  member \<open>x_\<close> is called \<open>ni_x\<close>, \<open>hb_x\<close> or \<open>hm_x\<close> by its class. The
  closure that \<open>handleCall\<close> posts to its own thread captures the three arguments, and is that triple.
\<close>

section \<open>NetInfo\<close>

record 'cb NetInfo =
  ni_clientId :: u64
  ni_retCallback :: "'cb option"

text \<open>The constructor leaves the number of the client as it finds it in memory.\<close>

definition NetInfo_new :: "u64 \<Rightarrow> 'cb NetInfo" where
  "NetInfo_new uninit = \<lparr>ni_clientId = uninit, ni_retCallback = None\<rparr>"

definition set_clientId :: "u64 \<Rightarrow> 'cb NetInfo \<Rightarrow> 'cb NetInfo" where
  "set_clientId clId ni = ni\<lparr>ni_clientId := clId\<rparr>"

definition set_returnCallbackType :: "'cb option \<Rightarrow> 'cb NetInfo \<Rightarrow> 'cb NetInfo" where
  "set_returnCallbackType cb ni = ni\<lparr>ni_retCallback := cb\<rparr>"

section \<open>HandlerBase\<close>

record ('cb, 's) handler_obj =
  hb_currNetInfo :: "'cb NetInfo"
  derived :: 's

type_synonym 'cb call = "string \<times> string \<times> 'cb NetInfo"

type_synonym ('cb, 's) rmi_function =
  "string \<Rightarrow> 'cb NetInfo \<Rightarrow> ('cb, 's) handler_obj \<Rightarrow> ('cb, 's) handler_obj res"

record ('cb, 's) HandlerBase =
  hb_thread :: "'cb call worker"
  hb_functions :: "string \<Rightarrow> ('cb, 's) rmi_function option"
  hb_obj :: "('cb, 's) handler_obj"

definition HandlerBase_new :: "bool \<Rightarrow> thread_id \<Rightarrow> u64 \<Rightarrow> string \<Rightarrow> 's \<Rightarrow> ('cb, 's) HandlerBase" where
  "HandlerBase_new b fresh uninit name s =
     \<lparr>hb_thread = ThreadedClass b fresh name, hb_functions = (\<lambda>_. None),
      hb_obj = \<lparr>hb_currNetInfo = NetInfo_new uninit, derived = s\<rparr>\<rparr>"

definition handler_name :: "('cb, 's) HandlerBase \<Rightarrow> string" where
  "handler_name h = threadName (hb_thread h)"

definition handleCall ::
  "thread_id \<Rightarrow> u64 \<Rightarrow> string \<Rightarrow> string \<Rightarrow> 'cb NetInfo \<Rightarrow> ('cb, 's) HandlerBase \<Rightarrow>
   ('cb, 's) HandlerBase res" where
  "handleCall this_thread uninit sg dat netInfo h =
     (let (sameThread, thread) =
            checkThread3 GetThreadId PostMsg this_thread () (\<lambda>_ t t1 t2. (t, t1, t2))
              sg dat netInfo (hb_thread h);
          h = h\<lparr>hb_thread := thread\<rparr>
      in if \<not> sameThread then Inr h
         else case hb_functions h sg of
             Some f \<Rightarrow>
               res_bind (f dat netInfo ((hb_obj h)\<lparr>hb_currNetInfo := netInfo\<rparr>)) (\<lambda>obj.
                 Inr (h\<lparr>hb_obj := obj\<lparr>hb_currNetInfo := NetInfo_new uninit\<rparr>\<rparr>))
           | None \<Rightarrow> Inr h)"

text \<open>
  \<open>HandlerBase::sendAnswer\<close>; a call of an empty \<open>std::function\<close> throws. \<open>invoke\<close> is what
  the stored function does.
\<close>

definition sendAnswer ::
  "('cb \<Rightarrow> 'cb NetInfo \<Rightarrow> string \<Rightarrow> ('cb, 's) handler_obj \<Rightarrow> ('cb, 's) handler_obj res) \<Rightarrow>
   'cb NetInfo \<Rightarrow> string \<Rightarrow> ('cb, 's) handler_obj \<Rightarrow> ('cb, 's) handler_obj res" where
  "sendAnswer invoke netInfo dat obj =
     (case ni_retCallback netInfo of
        None \<Rightarrow> Inl Bad_function_call
      | Some cb \<Rightarrow> invoke cb netInfo dat obj)"

definition readData1 :: "cpp_type \<Rightarrow> string \<Rightarrow> cpp_value \<Rightarrow> cpp_value res" where
  "readData1 T1 dat t1 =
     res_bind (ObjectDeser (istringstream dat)) (\<lambda>(deser, _).
     res_bind (deserialize T1 t1 deser) (\<lambda>(t1', _). Inr t1'))"

definition readData2 ::
  "cpp_type \<Rightarrow> cpp_type \<Rightarrow> string \<Rightarrow> cpp_value \<Rightarrow> cpp_value \<Rightarrow> (cpp_value \<times> cpp_value) res" where
  "readData2 T1 T2 dat t1 t2 =
     res_bind (ObjectDeser (istringstream dat)) (\<lambda>(deser, _).
     res_bind (deserialize T1 t1 deser) (\<lambda>(t1', d1).
     res_bind (deserialize T2 t2 d1) (\<lambda>(t2', _). Inr (t1', t2'))))"

definition readData3 ::
  "cpp_type \<Rightarrow> cpp_type \<Rightarrow> cpp_type \<Rightarrow> string \<Rightarrow> cpp_value \<Rightarrow> cpp_value \<Rightarrow> cpp_value \<Rightarrow>
   (cpp_value \<times> cpp_value \<times> cpp_value) res" where
  "readData3 T1 T2 T3 dat t1 t2 t3 =
     res_bind (ObjectDeser (istringstream dat)) (\<lambda>(deser, _).
     res_bind (deserialize T1 t1 deser) (\<lambda>(t1', d1).
     res_bind (deserialize T2 t2 d1) (\<lambda>(t2', d2).
     res_bind (deserialize T3 t3 d2) (\<lambda>(t3', _). Inr (t1', t2', t3')))))"

text \<open>
  A parameter of a registered method is its type and the spelling the macro turns into a literal.
  The method takes its arguments by reference, so it returns them with its result.
\<close>

definition passed_back :: "string \<Rightarrow> bool" where
  "passed_back spelling \<longleftrightarrow> is_retval spelling = Inr True"

type_synonym ('cb, 's) rmi_method =
  "cpp_value \<Rightarrow> cpp_value \<Rightarrow> cpp_value \<Rightarrow> ('cb, 's) handler_obj \<Rightarrow>
   (cpp_value \<times> cpp_value \<times> cpp_value \<times> cpp_value \<times> ('cb, 's) handler_obj) res"

definition rmi_lambda3 ::
  "('cb NetInfo \<Rightarrow> string \<Rightarrow> ('cb, 's) handler_obj \<Rightarrow> ('cb, 's) handler_obj res) \<Rightarrow>
   ('cb, 's) rmi_method \<Rightarrow> cpp_type \<times> string \<Rightarrow> cpp_type \<times> string \<Rightarrow> cpp_type \<times> string \<Rightarrow>
   ('cb, 's) rmi_function" where
  "rmi_lambda3 answer method P1 P2 P3 dat netInfo obj =
     res_bind (readData3 (fst P1) (fst P2) (fst P3) dat (default_value (fst P1))
         (default_value (fst P2)) (default_value (fst P3))) (\<lambda>(t1, t2, t3).
     res_bind (method t1 t2 t3 obj) (\<lambda>(retval, t1', t2', t3', obj').
       let retdata = serialiseAnswer (passed_back (snd P1)) (passed_back (snd P2))
             (passed_back (snd P3)) retval t1' t2' t3'
       in answer netInfo retdata obj'))"

definition REGISTER_RMI3 ::
  "('cb NetInfo \<Rightarrow> string \<Rightarrow> ('cb, 's) handler_obj \<Rightarrow> ('cb, 's) handler_obj res) \<Rightarrow> string \<Rightarrow>
   ('cb, 's) rmi_method \<Rightarrow> cpp_type \<times> string \<Rightarrow> cpp_type \<times> string \<Rightarrow> cpp_type \<times> string \<Rightarrow>
   ('cb, 's) HandlerBase \<Rightarrow> ('cb, 's) HandlerBase" where
  "REGISTER_RMI3 answer name method P1 P2 P3 h =
     h\<lparr>hb_functions := (hb_functions h)(name \<mapsto> rmi_lambda3 answer method P1 P2 P3)\<rparr>"

section \<open>HandlerManager\<close>

text \<open>
  The manager keeps pointers to handlers: the handlers themselves are in the heap \<open>hm_heap\<close>, which is
  no member of the class. \<open>insert\<close> leaves an entry that is already there.
\<close>

record ('cb, 's) HandlerManager =
  hm_handlers :: "string \<Rightarrow> nat option"
  hm_netInfos :: "u64 \<Rightarrow> 'cb NetInfo option"
  hm_sendData :: "'cb option"
  hm_heap :: "nat \<Rightarrow> ('cb, 's) HandlerBase option"

definition HandlerManager_new :: "(nat \<Rightarrow> ('cb, 's) HandlerBase option) \<Rightarrow> ('cb, 's) HandlerManager" where
  "HandlerManager_new heap =
     \<lparr>hm_handlers = (\<lambda>_. None), hm_netInfos = (\<lambda>_. None), hm_sendData = None, hm_heap = heap\<rparr>"

definition map_insert :: "'k \<Rightarrow> 'v \<Rightarrow> ('k \<Rightarrow> 'v option) \<Rightarrow> 'k \<Rightarrow> 'v option" where
  "map_insert k v m = (if m k = None then m(k \<mapsto> v) else m)"

definition registerHandler ::
  "nat option \<Rightarrow> ('cb, 's) HandlerManager \<Rightarrow> ('cb, 's) HandlerManager res" where
  "registerHandler handlerBase m =
     (case handlerBase of
        None \<Rightarrow> Inr m
      | Some p \<Rightarrow>
          (case hm_heap m p of
             None \<Rightarrow> Inl Out_of_bounds
           | Some h \<Rightarrow> Inr (m\<lparr>hm_handlers := map_insert (threadName (hb_thread h)) p (hm_handlers m)\<rparr>)))"

text \<open>\<open>hm_netInfos[clientId]\<close> adds a default \<open>NetInfo\<close> where there is none.\<close>

definition handlePacket ::
  "thread_id \<Rightarrow> u64 \<Rightarrow> string \<Rightarrow> u64 \<Rightarrow> ('cb, 's) HandlerManager \<Rightarrow> ('cb, 's) HandlerManager res" where
  "handlePacket this_thread uninit data_text clientId m =
     res_bind (RMIPacket_deserialize (istringstream data_text) RMIPacket_init) (\<lambda>(pkg, _).
       case hm_handlers m (handlerName pkg) of
         None \<Rightarrow> Inr m
       | Some p \<Rightarrow>
           (let netInfos = map_insert clientId (NetInfo_new uninit) (hm_netInfos m);
                netInfo = set_clientId clientId (the (netInfos clientId));
                m = m\<lparr>hm_netInfos := netInfos\<rparr>
            in case hm_heap m p of
                 None \<Rightarrow> Inl Out_of_bounds
               | Some h \<Rightarrow>
                   res_bind (handleCall this_thread uninit (signature pkg) (data pkg) netInfo h)
                     (\<lambda>h'. Inr (m\<lparr>hm_heap := (hm_heap m)(p \<mapsto> h')\<rparr>))))"

definition HandlerManager_sendAnswer ::
  "'cb NetInfo \<Rightarrow> string \<Rightarrow> ('cb, 's) HandlerManager \<Rightarrow> ('cb, 's) HandlerManager" where
  "HandlerManager_sendAnswer netInfo dat m = m"

definition setSendCallback :: "'cb option \<Rightarrow> ('cb, 's) HandlerManager \<Rightarrow> ('cb, 's) HandlerManager" where
  "setSendCallback callback m = m\<lparr>hm_sendData := callback\<rparr>"

section \<open>Calls from either thread\<close>

lemma handleCall_same:
  assumes "GetThreadId (hb_thread h) = Some me"
  shows "handleCall me uninit sg dat netInfo h =
    (case hb_functions h sg of
       Some f \<Rightarrow> res_bind (f dat netInfo ((hb_obj h)\<lparr>hb_currNetInfo := netInfo\<rparr>))
         (\<lambda>obj. Inr (h\<lparr>hb_obj := obj\<lparr>hb_currNetInfo := NetInfo_new uninit\<rparr>\<rparr>))
     | None \<Rightarrow> Inr h)"
  using assms by (simp add: handleCall_def worker_loop.same_thread)

lemma handleCall_other:
  assumes "GetThreadId (hb_thread h) \<noteq> Some me"
  shows "handleCall me uninit sg dat netInfo h =
    Inr (h\<lparr>hb_thread := PostMsg (Some (sg, dat, netInfo)) (hb_thread h)\<rparr>)"
  using assms by (simp add: handleCall_def worker_loop.other_thread)

lemma handleCall_thread:
  assumes "handleCall me uninit sg dat netInfo h = Inr h'"
  shows "hb_thread h' =
    (if GetThreadId (hb_thread h) = Some me then hb_thread h
     else PostMsg (Some (sg, dat, netInfo)) (hb_thread h))"
  using assms
  by (cases "GetThreadId (hb_thread h) = Some me")
    (auto simp: handleCall_same handleCall_other split: option.splits)

section \<open>The manager as a state machine\<close>

text \<open>
  The manager's operations, and the handlers' own threads, which take calls out of their queues and
  post none.
\<close>

definition pending_calls :: "('cb, 's) HandlerBase \<Rightarrow> 'cb call set" where
  "pending_calls h = set (callbacks (m_queue (hb_thread h)))"

inductive manager_step :: "('cb, 's) HandlerManager \<Rightarrow> ('cb, 's) HandlerManager \<Rightarrow> bool" where
  register: "registerHandler p m = Inr m' \<Longrightarrow> manager_step m m'"
| packet: "handlePacket me uninit str cid m = Inr m' \<Longrightarrow> manager_step m m'"
| set_send: "manager_step m (setSendCallback cb m)"
| thread: "hm_heap m p = Some h \<Longrightarrow> pending_calls h' \<subseteq> pending_calls h \<Longrightarrow>
    hb_functions h' = hb_functions h \<Longrightarrow> manager_step m (m\<lparr>hm_heap := (hm_heap m)(p \<mapsto> h')\<rparr>)"

inductive_cases manager_stepE: "manager_step m m'"

definition no_callback :: "'cb NetInfo \<Rightarrow> bool" where
  "no_callback ni \<longleftrightarrow> ni_retCallback ni = None"

definition manager_inv :: "('cb, 's) HandlerManager \<Rightarrow> bool" where
  "manager_inv m \<longleftrightarrow> (\<forall>c ni. hm_netInfos m c = Some ni \<longrightarrow> no_callback ni) \<and>
     (\<forall>p h sg dat ni. hm_heap m p = Some h \<longrightarrow> (sg, dat, ni) \<in> pending_calls h \<longrightarrow> no_callback ni)"

definition manager_start :: "('cb, 's) HandlerManager \<Rightarrow> bool" where
  "manager_start m \<longleftrightarrow> m = HandlerManager_new (hm_heap m) \<and>
     (\<forall>p h. hm_heap m p = Some h \<longrightarrow> pending_calls h = {})"

lemma pending_calls_post:
  "pending_calls (h\<lparr>hb_thread := PostMsg (Some c) (hb_thread h)\<rparr>) = insert c (pending_calls h)"
  by (simp add: pending_calls_def worker_loop.pending_post)

lemma pending_calls_handleCall:
  assumes "handleCall me uninit sg dat netInfo h = Inr h'"
  shows "pending_calls h' \<subseteq> insert (sg, dat, netInfo) (pending_calls h)"
  using handleCall_thread [OF assms] pending_calls_post [of "(sg, dat, netInfo)" h]
  by (auto simp: pending_calls_def split: if_splits)

lemma manager_inv_registerHandler: "registerHandler p m = Inr m' \<Longrightarrow> manager_inv m \<Longrightarrow> manager_inv m'"
  by (auto simp: registerHandler_def manager_inv_def split: option.splits)

lemma no_callback_new [simp]: "no_callback (NetInfo_new uninit)" "no_callback (set_clientId c ni) = no_callback ni"
  by (simp_all add: no_callback_def NetInfo_new_def set_clientId_def)

lemma map_insert_lookup: "map_insert k v m k' = (if k' = k \<and> m k = None then Some v else m k')"
  by (simp add: map_insert_def)

text \<open>What \<open>handlePacket\<close> passes on: the call of the packet, with the sender's number and no callback.\<close>

lemma handlePacket_cases:
  assumes "handlePacket me uninit str cid m = Inr m'" and "manager_inv m"
  obtains (unknown) "m' = m"
  | (call) pkg p h h' ni where "RMIPacket_deserialize (istringstream str) RMIPacket_init = Inr pkg"
      "hm_handlers m (handlerName (fst pkg)) = Some p" "hm_heap m p = Some h" "no_callback ni"
      "ni_clientId ni = cid"
      "handleCall me uninit (signature (fst pkg)) (data (fst pkg)) ni h = Inr h'"
      "m' = m\<lparr>hm_netInfos := map_insert cid (NetInfo_new uninit) (hm_netInfos m),
        hm_heap := (hm_heap m)(p \<mapsto> h')\<rparr>"
proof -
  have "\<exists>ni. map_insert cid (NetInfo_new uninit) (hm_netInfos m) cid = Some ni \<and> no_callback ni"
    using assms(2) by (cases "hm_netInfos m cid") (auto simp: map_insert_lookup manager_inv_def)
  then show ?thesis
    using assms(1) that by (force simp: handlePacket_def Let_def set_clientId_def no_callback_def split: option.splits)
qed

lemma manager_inv_handlePacket:
  assumes "handlePacket me uninit str cid m = Inr m'" and "manager_inv m"
  shows "manager_inv m'"
  using assms
proof (cases rule: handlePacket_cases)
  case (call pkg p h h' ni)
  have "no_callback n" if "(sg, dat, n) \<in> pending_calls h'" for sg dat n
    using pending_calls_handleCall [OF call(6)] that call(3,4) assms(2) by (auto simp: manager_inv_def)
  with assms(2) call(7) show ?thesis by (auto simp: manager_inv_def map_insert_lookup split: if_splits)
qed (use assms in simp)

lemma manager_inv_step: "manager_inv m \<Longrightarrow> manager_step m m' \<Longrightarrow> manager_inv m'"
proof (elim manager_stepE)
  fix h h' :: "('a, 'b) HandlerBase" and p
  assume "manager_inv m" "hm_heap m p = Some h" "pending_calls h' \<subseteq> pending_calls h"
    "m' = m\<lparr>hm_heap := (hm_heap m)(p \<mapsto> h')\<rparr>"
  then show "manager_inv m'" by (simp add: manager_inv_def subset_eq) blast
qed (auto simp: manager_inv_registerHandler manager_inv_handlePacket, simp add: manager_inv_def setSendCallback_def)

interpretation manager: invariant_of manager_start manager_step manager_inv
proof
  show "manager_start m \<Longrightarrow> manager_inv m" for m :: "('a, 'b) HandlerManager"
    by (cases m) (auto simp: manager_start_def manager_inv_def HandlerManager_new_def)
qed (rule manager_inv_step)

section \<open>Properties\<close>

text \<open>
  A call that reaches a handler from another thread changes nothing but the end of the queue of
  the handler's own thread; when that thread runs the stored call, in whatever state it is by then,
  the registered function gets the arguments and the network information of the original call,
  which is also the handler's current one while the function runs, and an unknown method does
  nothing.
\<close>

theorem handleCall_deferred:
  assumes "GetThreadId (hb_thread h) \<noteq> Some me" and "GetThreadId w = Some own"
  shows "\<exists>h1. handleCall me uninit sg dat netInfo h = Inr h1 \<and>
    callbacks (m_queue (hb_thread h1)) = callbacks (m_queue (hb_thread h)) @ [(sg, dat, netInfo)] \<and>
    h1\<lparr>hb_thread := w\<rparr> = h\<lparr>hb_thread := w\<rparr> \<and>
    handleCall own uninit sg dat netInfo (h1\<lparr>hb_thread := w\<rparr>) =
      (case hb_functions h sg of
         None \<Rightarrow> Inr (h\<lparr>hb_thread := w\<rparr>)
       | Some f \<Rightarrow> res_bind (f dat netInfo ((hb_obj h)\<lparr>hb_currNetInfo := netInfo\<rparr>))
           (\<lambda>obj. Inr (h\<lparr>hb_thread := w, hb_obj := obj\<lparr>hb_currNetInfo := NetInfo_new uninit\<rparr>\<rparr>)))"
  using assms by (simp add: handleCall_other handleCall_same worker_loop.pending_post split: option.split)

definition demo_handler :: "(unit, nat) HandlerBase" where
  "demo_handler = REGISTER_RMI3 (sendAnswer (\<lambda>_ _ _ obj. Inr obj)) ''f''
     (\<lambda>t1 t2 t3 obj. Inr (VInt 1, t1, t2, t3, obj\<lparr>derived := derived obj + 1\<rparr>))
     (TInt, ''int'') (TInt, ''int'') (TInt, ''int'')
     ((HandlerBase_new False 7 0 ''H'' 0)\<lparr>hb_thread := Process_start (ThreadedClass False 7 ''H'')\<rparr>)"

lemma demo_handler_thread: "GetThreadId (hb_thread demo_handler) = Some 7"
  by (simp add: demo_handler_def REGISTER_RMI3_def HandlerBase_new_def ThreadedClass_def demo_defs GetThreadId_def)

theorem handleCall_deferred_witness:
  "handleCall 7 0 ''g'' [] (NetInfo_new 3) demo_handler = Inr demo_handler \<and>
   callbacks (m_queue (hb_thread (projr (handleCall 1 0 ''g'' [] (NetInfo_new 3) demo_handler)))) =
     callbacks (m_queue (hb_thread demo_handler)) @ [(''g'', [], NetInfo_new 3)]"
proof -
  have g: "hb_functions demo_handler ''g'' = None"
    by (simp add: demo_handler_def REGISTER_RMI3_def HandlerBase_new_def)
  show ?thesis
    using handleCall_deferred [of demo_handler 1 "hb_thread demo_handler" 7 0 "''g''" "[]" "NetInfo_new 3"] g
    by (auto simp: demo_handler_thread)
qed

lemma reachable_no_callback:
  assumes "manager_start m0" and "manager_step\<^sup>*\<^sup>* m0 m" and "hm_heap m p = Some h"
    and "(sg, dat, ni) \<in> pending_calls h"
  shows "ni_retCallback ni = None"
  using manager.inv_reachable [OF assms(1,2)] assms(3,4) unfolding manager_inv_def no_callback_def by blast

text \<open>
  C32 The manager never gives a call a way to answer: whatever packets, registrations and send
  callbacks it was given, every call it has queued at a handler carries an empty return
  callback, so a registered method that answers through \<open>HandlerBase::sendAnswer\<close> ends, after it
  has run, with \<open>std::bad_function_call\<close>.
\<close>

theorem manager_never_answers:
  assumes "manager_start m0" and "manager_step\<^sup>*\<^sup>* m0 m" and "hm_heap m p = Some h"
    and "(sg, dat, ni) \<in> pending_calls h" and "GetThreadId (hb_thread h) = Some own"
    and "hb_functions h sg = Some (rmi_lambda3 (sendAnswer invoke) method P1 P2 P3)"
    and "readData3 (fst P1) (fst P2) (fst P3) dat (default_value (fst P1)) (default_value (fst P2))
      (default_value (fst P3)) = Inr (t1, t2, t3)"
    and "method t1 t2 t3 ((hb_obj h)\<lparr>hb_currNetInfo := ni\<rparr>) = Inr out"
  shows "handleCall own uninit sg dat ni h = Inl Bad_function_call"
  using reachable_no_callback [OF assms(1-4)] assms(5-8)
  by (simp add: handleCall_same rmi_lambda3_def sendAnswer_def split: prod.split)

definition demo_manager :: "(unit, nat) HandlerManager" where
  "demo_manager = HandlerManager_new [0 \<mapsto> demo_handler]"

definition demo_packet :: RMIPacket where
  "demo_packet = \<lparr>handlerName = ''H'', signature = ''f'', requestId = 1, data = ''[10,20,30''\<rparr>"

lemma demo_packet_read:
  "RMIPacket_deserialize (istringstream (RMIPacket_serialize [] demo_packet)) RMIPacket_init =
    Inr (demo_packet, stream_end)"
  unfolding RMIPacket_serialize_text by code_simp

lemma demo_readData:
  "readData3 TInt TInt TInt ''[10,20,30'' (VInt 0) (VInt 0) (VInt 0) = Inr (VInt 10, VInt 20, VInt 3)"
  by code_simp

lemma demo_manager_run:
  "manager_step\<^sup>*\<^sup>* demo_manager
     (demo_manager\<lparr>hm_handlers := [''H'' \<mapsto> 0], hm_netInfos := [5 \<mapsto> NetInfo_new 0],
       hm_heap := [0 \<mapsto> demo_handler\<lparr>hb_thread :=
         PostMsg (Some (''f'', ''[10,20,30'', set_clientId 5 (NetInfo_new 0))) (hb_thread demo_handler)\<rparr>]\<rparr>)"
    (is "_\<^sup>*\<^sup>* _ ?m2")
proof -
  let ?m1 = "demo_manager\<lparr>hm_handlers := [''H'' \<mapsto> 0]\<rparr>"
  have "threadName (hb_thread demo_handler) = ''H''"
    by (simp add: demo_handler_def REGISTER_RMI3_def ThreadedClass_def threadName_def demo_defs)
  then have "registerHandler (Some 0) demo_manager = Inr ?m1"
    by (simp add: registerHandler_def demo_manager_def HandlerManager_new_def map_insert_def)
  then have s1: "manager_step demo_manager ?m1" by (rule manager_step.register)
  have "handlePacket 1 0 (RMIPacket_serialize [] demo_packet) 5 ?m1 = Inr ?m2"
    by (simp add: handlePacket_def demo_packet_read)
      (simp add: demo_packet_def demo_manager_def HandlerManager_new_def map_insert_def Let_def
        handleCall_other demo_handler_thread)
  then have "manager_step ?m1 ?m2" by (rule manager_step.packet)
  with s1 show ?thesis by (meson converse_rtranclp_into_rtranclp r_into_rtranclp)
qed

theorem manager_never_answers_witness:
  "handleCall 7 0 ''f'' ''[10,20,30'' (set_clientId 5 (NetInfo_new 0))
     (demo_handler\<lparr>hb_thread :=
       PostMsg (Some (''f'', ''[10,20,30'', set_clientId 5 (NetInfo_new 0))) (hb_thread demo_handler)\<rparr>) =
   Inl Bad_function_call"
proof -
  have start: "manager_start demo_manager"
    by (simp add: manager_start_def demo_manager_def HandlerManager_new_def demo_handler_def pending_calls_def
        REGISTER_RMI3_def ThreadedClass_def demo_defs)
  show ?thesis
    by (rule manager_never_answers [OF start demo_manager_run, of 0 _ _ _ _ 7
          "\<lambda>_ _ _ obj. Inr obj" "\<lambda>t1 t2 t3 obj. Inr (VInt 1, t1, t2, t3, obj\<lparr>derived := derived obj + 1\<rparr>)"
          "(TInt, ''int'')" "(TInt, ''int'')" "(TInt, ''int'')"])
      (simp_all add: demo_readData demo_handler_thread pending_calls_post worker_loop.getId_post,
       simp add: demo_handler_def REGISTER_RMI3_def)
qed

end
