(* ===== verification/RemoteCall.thy ===== *)
theory RemoteCall
  imports Handlers
begin

text \<open>
  The client side of a remote call (\<open>lib/remotecall.h\<close>): the arguments are written into one
  object, \<open>sendAndWait\<close> carries it to the handler and returns the answer, and the answer is read
  into the result and the parameters that are passed back. \<open>sendAndWait\<close> is pure virtual: it is an
  argument, with the world \<open>'w\<close> it acts on. As in \<open>serialiseAnswer\<close>, \<open>out.str()\<close> is taken
  while the \<open>ObjectSer\<close> is alive, so the text has no closing brace. The overload for no
  parameters, which names a template that does not exist, is in \<open>SmallCalls\<close>.
\<close>

section \<open>Operations\<close>

type_synonym 'w send_and_wait = "string \<Rightarrow> string \<Rightarrow> string \<Rightarrow> 'w \<Rightarrow> (string \<times> 'w) res"

definition make_call1 ::
  "'w send_and_wait \<Rightarrow> cpp_type \<Rightarrow> cpp_type \<times> bool \<Rightarrow> string \<Rightarrow> string \<Rightarrow> cpp_value \<Rightarrow> 'w \<Rightarrow>
   ((cpp_value \<times> cpp_value) \<times> 'w) res" where
  "make_call1 sendAndWait TR P1 protocol sg t1 w =
     (let ser = ObjectSer_put serialize (ObjectSer []) t1
      in res_bind (sendAndWait protocol sg (os_out ser) w) (\<lambda>(answer, w').
         res_bind (parseAnswer1 TR P1 (istringstream answer) (default_value TR) t1) (\<lambda>r.
         Inr (r, w'))))"

definition make_call2 ::
  "'w send_and_wait \<Rightarrow> cpp_type \<Rightarrow> cpp_type \<times> bool \<Rightarrow> cpp_type \<times> bool \<Rightarrow> string \<Rightarrow> string \<Rightarrow>
   cpp_value \<Rightarrow> cpp_value \<Rightarrow> 'w \<Rightarrow> ((cpp_value \<times> cpp_value \<times> cpp_value) \<times> 'w) res" where
  "make_call2 sendAndWait TR P1 P2 protocol sg t1 t2 w =
     (let ser = ObjectSer_put serialize (ObjectSer_put serialize (ObjectSer []) t1) t2
      in res_bind (sendAndWait protocol sg (os_out ser) w) (\<lambda>(answer, w').
         res_bind (parseAnswer2 TR P1 P2 (istringstream answer) (default_value TR) t1 t2) (\<lambda>r.
         Inr (r, w'))))"

definition make_call3 ::
  "'w send_and_wait \<Rightarrow> cpp_type \<Rightarrow> cpp_type \<times> bool \<Rightarrow> cpp_type \<times> bool \<Rightarrow> cpp_type \<times> bool \<Rightarrow>
   string \<Rightarrow> string \<Rightarrow> cpp_value \<Rightarrow> cpp_value \<Rightarrow> cpp_value \<Rightarrow> 'w \<Rightarrow>
   ((cpp_value \<times> cpp_value \<times> cpp_value \<times> cpp_value) \<times> 'w) res" where
  "make_call3 sendAndWait TR P1 P2 P3 protocol sg t1 t2 t3 w =
     (let ser = ObjectSer_put serialize (ObjectSer_put serialize
                  (ObjectSer_put serialize (ObjectSer []) t1) t2) t3
      in res_bind (sendAndWait protocol sg (os_out ser) w) (\<lambda>(answer, w').
         res_bind (parseAnswer3 TR P1 P2 P3 (istringstream answer) (default_value TR) t1 t2 t3) (\<lambda>r.
         Inr (r, w'))))"

text \<open>The macros: the method's name is the signature, the flags come from the spelled types.\<close>

definition MAKE_RMI1 ::
  "'w send_and_wait \<Rightarrow> string \<Rightarrow> cpp_type \<Rightarrow> string \<Rightarrow> cpp_type \<times> string \<Rightarrow> cpp_value \<Rightarrow> 'w \<Rightarrow>
   ((cpp_value \<times> cpp_value) \<times> 'w) res" where
  "MAKE_RMI1 sendAndWait protocol rettype name P1 t1 w =
     make_call1 sendAndWait rettype (fst P1, passed_back (snd P1)) protocol name t1 w"

definition MAKE_RMI2 ::
  "'w send_and_wait \<Rightarrow> string \<Rightarrow> cpp_type \<Rightarrow> string \<Rightarrow> cpp_type \<times> string \<Rightarrow> cpp_type \<times> string \<Rightarrow>
   cpp_value \<Rightarrow> cpp_value \<Rightarrow> 'w \<Rightarrow> ((cpp_value \<times> cpp_value \<times> cpp_value) \<times> 'w) res" where
  "MAKE_RMI2 sendAndWait protocol rettype name P1 P2 t1 t2 w =
     make_call2 sendAndWait rettype (fst P1, passed_back (snd P1)) (fst P2, passed_back (snd P2))
       protocol name t1 t2 w"

definition MAKE_RMI3 ::
  "'w send_and_wait \<Rightarrow> string \<Rightarrow> cpp_type \<Rightarrow> string \<Rightarrow> cpp_type \<times> string \<Rightarrow> cpp_type \<times> string \<Rightarrow>
   cpp_type \<times> string \<Rightarrow> cpp_value \<Rightarrow> cpp_value \<Rightarrow> cpp_value \<Rightarrow> 'w \<Rightarrow>
   ((cpp_value \<times> cpp_value \<times> cpp_value \<times> cpp_value) \<times> 'w) res" where
  "MAKE_RMI3 sendAndWait protocol rettype name P1 P2 P3 t1 t2 t3 w =
     make_call3 sendAndWait rettype (fst P1, passed_back (snd P1)) (fst P2, passed_back (snd P2))
       (fst P3, passed_back (snd P3)) protocol name t1 t2 t3 w"

text \<open>
  The in-process transport of \<open>test/handlertest.cpp\<close>: the handler keeps the last answer in a
  member, and \<open>sendAndWait\<close> calls the handler and returns that member.
\<close>

record 's answering =
  impl :: 's
  answer_text :: string

definition AdminHandler_sendAnswer ::
  "'cb NetInfo \<Rightarrow> string \<Rightarrow> ('cb, 's answering) handler_obj \<Rightarrow> ('cb, 's answering) handler_obj res" where
  "AdminHandler_sendAnswer netInfo dat obj = Inr (obj\<lparr>derived := (derived obj)\<lparr>answer_text := dat\<rparr>\<rparr>)"

definition AdminRemote_sendAndWait ::
  "thread_id \<Rightarrow> u64 \<Rightarrow> ('cb, 's answering) HandlerBase send_and_wait" where
  "AdminRemote_sendAndWait me uninit protocol sg dat h =
     res_bind (handleCall me uninit sg dat (NetInfo_new uninit) h) (\<lambda>h'.
       Inr (answer_text (derived (hb_obj h')), h'))"

section \<open>Arguments\<close>

lemma call_text:
  "os_out (ObjectSer_put serialize (ObjectSer_put serialize
     (ObjectSer_put serialize (ObjectSer []) t1) t2) t3) =
   CHR ''{'' # comma_sep (map text_of (returned [(T1, True), (T2, True), (T3, True)] [t1, t2, t3]))"
  using ObjectSer_fields_text [of "[]" "[t1, t2, t3]"] by simp

text \<open>The text of a call fits into a request.\<close>

lemma call_text_carried:
  assumes "wf_value T1 t1" and "wf_value T2 t2" and "wf_value T3 t3"
  shows "carried (os_out (ObjectSer_put serialize (ObjectSer []) t1))"
    "carried (os_out (ObjectSer_put serialize (ObjectSer_put serialize (ObjectSer []) t1) t2))"
    "carried (os_out (ObjectSer_put serialize (ObjectSer_put serialize (ObjectSer_put serialize (ObjectSer []) t1) t2) t3))"
  using ObjectSer_fields_text [of "[]" "[t1]"] ObjectSer_fields_text [of "[]" "[t1, t2]"]
    ObjectSer_fields_text [of "[]" "[t1, t2, t3]"] carried_open_object [of "[t1]"] carried_open_object [of "[t1, t2]"]
    carried_open_object [of "[t1, t2, t3]"] assms
  by auto

lemma readData3_fields:
  "readData3 T1 T2 T3 dat t1 t2 t3 =
     res_bind (ObjectDeser (istringstream dat)) (\<lambda>(deser, _).
     res_bind (opt_fields [(T1, True), (T2, True), (T3, True)] [t1, t2, t3] deser)
       (\<lambda>(vs, _). Inr (vs ! 0, vs ! 1, vs ! 2)))"
  by (auto simp: readData3_def OptionalDeserialiser_def res_bind_def split: sum.split prod.split)

lemma readData3_call:
  assumes "readable [(T1, True), (T2, True), (T3, True)] [v1, v2, VString s]"
  shows "readData3 T1 T2 T3
      (os_out (ObjectSer_put serialize (ObjectSer_put serialize
        (ObjectSer_put serialize (ObjectSer []) v1) v2) (VString s))) t1 t2 t3 =
    Inr (v1, v2, VString s)"
proof -
  have e: "ends_in_string (returned [(T1, True), (T2, True), (T3, True)] [v1, v2, VString s])"
    by (simp add: ends_in_string_def)
  show ?thesis
    unfolding readData3_fields call_text [of v1 v2 "VString s" T1 T2 T3] ObjectDeser_open_fields [OF assms e]
    using opt_fields_cut [OF assms, of "[t1, t2, t3]"] e
    by (simp del: opt_fields.simps returned.simps)
qed

section \<open>The contract of a transport\<close>

text \<open>
  What a caller relies on: where the handler serves a request (\<open>serve\<close>), \<open>sendAndWait\<close>
  returns the answer that the handler gave.
\<close>

locale transport =
  fixes saw :: "'w send_and_wait"
    and serve :: "string \<Rightarrow> string \<Rightarrow> 'w \<Rightarrow> (string \<times> 'w) res"
  assumes saw_serve: "serve sg dat w = Inr (ans, w') \<Longrightarrow> saw protocol sg dat w = Inr (ans, w')"
begin

lemma make_call3_correct:
  assumes "serve sg (os_out (ObjectSer_put serialize (ObjectSer_put serialize
        (ObjectSer_put serialize (ObjectSer []) t1) t2) t3)) w =
      Inr (serialiseAnswer r1 r2 r3 ret v1 v2 v3, w')"
    and "readable [(TR, True), (T1, r1), (T2, r2), (T3, r3)] [ret, v1, v2, v3]"
    and "ends_in_string (returned [(TR, True), (T1, r1), (T2, r2), (T3, r3)] [ret, v1, v2, v3])"
  shows "make_call3 saw TR (T1, r1) (T2, r2) (T3, r3) protocol sg t1 t2 t3 w =
    Inr ((ret, if r1 then v1 else t1, if r2 then v2 else t2, if r3 then v3 else t3), w')"
  using saw_serve [OF assms(1)] parseAnswer3_serialiseAnswer [OF assms(2,3)]
  by (simp add: make_call3_def)

end

text \<open>The in-process transport serves a request when the caller runs on the handler's thread.\<close>

definition handler_serve ::
  "thread_id \<Rightarrow> u64 \<Rightarrow> string \<Rightarrow> string \<Rightarrow> ('cb, 's answering) HandlerBase \<Rightarrow>
   (string \<times> ('cb, 's answering) HandlerBase) res" where
  "handler_serve me uninit sg dat h =
     (if GetThreadId (hb_thread h) \<noteq> Some me then Inl Assertion_failed
      else case hb_functions h sg of
             None \<Rightarrow> Inl Assertion_failed
           | Some f \<Rightarrow>
               res_bind (f dat (NetInfo_new uninit) ((hb_obj h)\<lparr>hb_currNetInfo := NetInfo_new uninit\<rparr>)) (\<lambda>obj.
                 Inr (answer_text (derived obj), h\<lparr>hb_obj := obj\<lparr>hb_currNetInfo := NetInfo_new uninit\<rparr>\<rparr>)))"

interpretation in_process: transport "AdminRemote_sendAndWait me uninit" "handler_serve me uninit"
  by unfold_locales
    (auto simp: AdminRemote_sendAndWait_def handler_serve_def handleCall_same
      split: if_splits option.splits)

section \<open>Properties\<close>

text \<open>
  C3 A remote call is a local call: a method of three parameters, registered with the handler and called
  through the proxy on the handler's thread, runs once on the caller's arguments; the caller gets
  its result, the parameters that are non-constant references get the values the method left in
  them, and the others keep theirs. The conditions are those the code needs: the last argument and the last value of the answer are
  strings, as in the framework's own test (the texts are taken before their brace is closed), no argument or result contains
  a vector (which is appended to), and strings have no character the format does not carry.
\<close>

theorem remote_call_is_local_call:
  assumes "GetThreadId (hb_thread h) = Some me"
    and "hb_functions h name =
      Some (rmi_lambda3 AdminHandler_sendAnswer method (T1, s1) (T2, s2) (TString, s3))"
    and "wf_value T1 t1 \<and> overwritten T1" and "wf_value T2 t2 \<and> overwritten T2" and "plain_string s"
    and "method t1 t2 (VString s) ((hb_obj h)\<lparr>hb_currNetInfo := NetInfo_new uninit\<rparr>) =
      Inr (ret, v1, v2, v3, obj)"
    and "wf_value TR ret \<and> overwritten TR"
    and "passed_back s1 \<Longrightarrow> wf_value T1 v1" and "passed_back s2 \<Longrightarrow> wf_value T2 v2"
    and "passed_back s3 \<Longrightarrow> wf_value TString v3"
    and "(if passed_back s3 then v3 else if passed_back s2 then v2
      else if passed_back s1 then v1 else ret) = VString s'"
  shows "\<exists>h'. MAKE_RMI3 (AdminRemote_sendAndWait me uninit) protocol TR name (T1, s1) (T2, s2) (TString, s3)
      t1 t2 (VString s) h =
    Inr ((ret, if passed_back s1 then v1 else t1, if passed_back s2 then v2 else t2,
      if passed_back s3 then v3 else VString s), h') \<and>
    impl (derived (hb_obj h')) = impl (derived obj) \<and> hb_thread h' = hb_thread h"
proof -
  let ?d = "os_out (ObjectSer_put serialize (ObjectSer_put serialize
        (ObjectSer_put serialize (ObjectSer []) t1) t2) (VString s))"
  let ?a = "serialiseAnswer (passed_back s1) (passed_back s2) (passed_back s3) ret v1 v2 v3"
  let ?obj = "obj\<lparr>derived := (derived obj)\<lparr>answer_text := ?a\<rparr>, hb_currNetInfo := NetInfo_new uninit\<rparr>"
  have "readData3 T1 T2 TString ?d c1 c2 c3 = Inr (t1, t2, VString s)" for c1 c2 c3
    using assms(3-5) by (intro readData3_call) simp
  then have serve: "handler_serve me uninit name ?d h = Inr (?a, h\<lparr>hb_obj := ?obj\<rparr>)"
    using assms(1,2,6)
    by (simp add: handler_serve_def rmi_lambda3_def AdminHandler_sendAnswer_def)
  show ?thesis
    unfolding MAKE_RMI3_def fst_conv snd_conv
    by (subst in_process.make_call3_correct [OF serve])
      (use assms(3,4,7-11) in \<open>auto simp: ends_in_string_def\<close>)
qed

text \<open>The handler of the framework's test.\<close>

definition addUser :: "(unit, unit answering) rmi_method" where
  "addUser user salts pwhash obj = Inr (VInt 55, user, VString ''this is a new salt'', pwhash, obj)"

definition AdminHandler :: "(unit, unit answering) HandlerBase" where
  "AdminHandler = REGISTER_RMI3 AdminHandler_sendAnswer ''addUser'' addUser
     (TString, ''const std::string &'') (TString, ''std::string &'') (TString, ''const std::string &'')
     (HandlerBase_new False 7 0 ''AdminHandler'' \<lparr>impl = (), answer_text = []\<rparr>)"

lemma passed_back_simps [simp]:
  "passed_back ''const std::string &'' = False" "passed_back ''std::string &'' = True"
  by (simp_all add: passed_back_def is_retval_correct sublist_Cons_right)

theorem remote_call_is_local_call_witness:
  "\<exists>h'. MAKE_RMI3 (AdminRemote_sendAndWait 7 0) ''AdminProtocol'' TInt ''addUser''
     (TString, ''const std::string &'') (TString, ''std::string &'') (TString, ''const std::string &'')
     (VString ''username'') (VString []) (VString ''HASH'')
     (AdminHandler\<lparr>hb_thread := Process_start (hb_thread AdminHandler)\<rparr>) =
   Inr ((VInt 55, VString ''username'', VString ''this is a new salt'', VString ''HASH''), h')"
  using remote_call_is_local_call [of "AdminHandler\<lparr>hb_thread := Process_start (hb_thread AdminHandler)\<rparr>"
      7 "''addUser''" addUser TString "''const std::string &''" TString "''std::string &''"
      "''const std::string &''" "VString ''username''" "VString []" "''HASH''" 0
      "VInt 55" "VString ''username''" "VString ''this is a new salt''" "VString ''HASH''" _ TInt
      "''this is a new salt''" "''AdminProtocol''"]
  by (auto simp: AdminHandler_def REGISTER_RMI3_def HandlerBase_new_def ThreadedClass_def demo_defs
      GetThreadId_def addUser_def plain_string_def)

lemma escape_append: "escape (xs @ ys) = escape xs @ escape ys"
  by (induction xs) simp_all

text \<open>
  C34 A string argument does not survive the request packet. The packet writes the argument text
  as a string, with its quotes escaped, and reads it back escaped; the handler then finds no quote
  at the start of the argument, takes the backslashes and quotes for part of it and loses its last
  character to the missing brace.
\<close>

theorem request_garbles_string_argument:
  assumes "plain_string (handlerName pkg)" and "plain_string (signature pkg)"
    and "plain_string s" and "CHR '','' \<notin> set s"
    and "data pkg = os_out (ObjectSer_put serialize (ObjectSer []) (VString s))"
  shows "\<exists>pkg'. RMIPacket_deserialize (istringstream (RMIPacket_serialize [] pkg)) RMIPacket_init =
      Inr (pkg', stream_end) \<and>
    readData1 TString (data pkg') (VString []) = Inr (VString ([backslash, dquote] @ s @ [backslash]))"
proof -
  have s: "dquote \<notin> set s" "balanced (CHR ''{'') (CHR ''}'') s" "escape s = s"
    using assms(3) by (auto simp: plain_string_def escape_id)
  have d: "data pkg = CHR ''{'' # dquote # s @ [dquote]"
    using ObjectSer_fields_text [of "[]" "[VString s]"] assms(5) s(3) by simp
  let ?w = "backslash # dquote # s @ [backslash, dquote]"
  have e: "escape (data pkg) = CHR ''{'' # ?w"
    using s(3) by (simp add: d escape_append)
  have nest: "nesting (CHR ''{'') (CHR ''}'') 0 ?w = Some 0"
    using s(2) by (simp add: nesting_append)
  then have "nesting (CHR ''{'') (CHR ''}'') 0 (escape (data pkg)) = Some 1"
    unfolding e using nesting_shift [OF nest, of 1] by simp
  from RMIPacket_data_escaped [OF assms(1,2) _ this] have
    "RMIPacket_deserialize (istringstream (RMIPacket_serialize [] pkg)) RMIPacket_init =
      Inr (pkg\<lparr>data := CHR ''{'' # ?w\<rparr>, stream_end)"
    unfolding e by (simp add: d)
  moreover have "readData1 TString (CHR ''{'' # ?w) (VString []) =
      Inr (VString ([backslash, dquote] @ s @ [backslash]))"
    using ObjectDeser_open [OF nest] nextToken_plain(2) [of "backslash # dquote # s @ [backslash]"] assms(4)
    by (simp add: readData1_def deserialize_string_def butlast_append)
  ultimately show ?thesis by (intro exI [of _ "pkg\<lparr>data := CHR ''{'' # ?w\<rparr>"]) simp
qed

theorem request_garbles_string_argument_witness:
  "\<exists>pkg'. RMIPacket_deserialize (istringstream (RMIPacket_serialize []
       \<lparr>handlerName = ''H'', signature = ''f'', requestId = 1,
        data = os_out (ObjectSer_put serialize (ObjectSer []) (VString ''abc''))\<rparr>)) RMIPacket_init =
     Inr (pkg', stream_end) \<and>
   readData1 TString (data pkg') (VString []) = Inr (VString ([backslash, dquote] @ ''abc'' @ [backslash]))"
  by (rule request_garbles_string_argument) (simp_all add: plain_string_def)

end
