(* ===== verification/SmallCalls.thy ===== *)
theory SmallCalls
  imports RemoteCall
begin

text \<open>
  Remote calls with fewer than three parameters: the macros \<open>REGISTER_RMI0\<close>, \<open>REGISTER_RMI1\<close> and
  \<open>REGISTER_RMI2\<close> of \<open>lib/handlerbase.h\<close>, \<open>make_call\<close> without parameters and \<open>MAKE_RMI0\<close> of
  \<open>lib/remotecall.h\<close>, and \<open>ProtocolBase\<close>, which gives a protocol its name. The macros call overloads
  of \<open>serialiseAnswer\<close> and \<open>parseAnswer\<close> that the repository does not have, so they compile only
  where their user provides them: the overload is an argument here.
\<close>

section \<open>Protocols\<close>

record ProtocolBase =
  pb_name :: string

definition ProtocolBase_new :: "string \<Rightarrow> ProtocolBase" where
  "ProtocolBase_new name = \<lparr>pb_name = name\<rparr>"

section \<open>Registration\<close>

type_synonym ('cb, 's) answer_function =
  "'cb NetInfo \<Rightarrow> string \<Rightarrow> ('cb, 's) handler_obj \<Rightarrow> ('cb, 's) handler_obj res"

definition rmi_lambda0 ::
  "(cpp_value \<Rightarrow> string) \<Rightarrow> ('cb, 's) answer_function \<Rightarrow>
   (('cb, 's) handler_obj \<Rightarrow> (cpp_value \<times> ('cb, 's) handler_obj) res) \<Rightarrow> ('cb, 's) rmi_function" where
  "rmi_lambda0 serialiseAnswer0 answer method dat netInfo obj =
     res_bind (method obj) (\<lambda>(retval, obj').
       let retdata = serialiseAnswer0 retval
       in answer netInfo retdata obj')"

definition rmi_lambda1 ::
  "(bool \<Rightarrow> cpp_value \<Rightarrow> cpp_value \<Rightarrow> string) \<Rightarrow> ('cb, 's) answer_function \<Rightarrow>
   (cpp_value \<Rightarrow> ('cb, 's) handler_obj \<Rightarrow> (cpp_value \<times> cpp_value \<times> ('cb, 's) handler_obj) res) \<Rightarrow>
   cpp_type \<times> string \<Rightarrow> ('cb, 's) rmi_function" where
  "rmi_lambda1 serialiseAnswer1 answer method P1 dat netInfo obj =
     res_bind (readData1 (fst P1) dat (default_value (fst P1))) (\<lambda>t1.
     res_bind (method t1 obj) (\<lambda>(retval, t1', obj').
       let retdata = serialiseAnswer1 (passed_back (snd P1)) retval t1'
       in answer netInfo retdata obj'))"

definition rmi_lambda2 ::
  "(bool \<Rightarrow> bool \<Rightarrow> cpp_value \<Rightarrow> cpp_value \<Rightarrow> cpp_value \<Rightarrow> string) \<Rightarrow> ('cb, 's) answer_function \<Rightarrow>
   (cpp_value \<Rightarrow> cpp_value \<Rightarrow> ('cb, 's) handler_obj \<Rightarrow>
     (cpp_value \<times> cpp_value \<times> cpp_value \<times> ('cb, 's) handler_obj) res) \<Rightarrow>
   cpp_type \<times> string \<Rightarrow> cpp_type \<times> string \<Rightarrow> ('cb, 's) rmi_function" where
  "rmi_lambda2 serialiseAnswer2 answer method P1 P2 dat netInfo obj =
     res_bind (readData2 (fst P1) (fst P2) dat (default_value (fst P1)) (default_value (fst P2))) (\<lambda>(t1, t2).
     res_bind (method t1 t2 obj) (\<lambda>(retval, t1', t2', obj').
       let retdata = serialiseAnswer2 (passed_back (snd P1)) (passed_back (snd P2)) retval t1' t2'
       in answer netInfo retdata obj'))"

definition REGISTER_RMI0 ::
  "(cpp_value \<Rightarrow> string) \<Rightarrow> ('cb, 's) answer_function \<Rightarrow> string \<Rightarrow>
   (('cb, 's) handler_obj \<Rightarrow> (cpp_value \<times> ('cb, 's) handler_obj) res) \<Rightarrow>
   ('cb, 's) HandlerBase \<Rightarrow> ('cb, 's) HandlerBase" where
  "REGISTER_RMI0 serialiseAnswer0 answer name method h =
     h\<lparr>hb_functions := (hb_functions h)(name \<mapsto> rmi_lambda0 serialiseAnswer0 answer method)\<rparr>"

definition REGISTER_RMI1 ::
  "(bool \<Rightarrow> cpp_value \<Rightarrow> cpp_value \<Rightarrow> string) \<Rightarrow> ('cb, 's) answer_function \<Rightarrow> string \<Rightarrow>
   (cpp_value \<Rightarrow> ('cb, 's) handler_obj \<Rightarrow> (cpp_value \<times> cpp_value \<times> ('cb, 's) handler_obj) res) \<Rightarrow>
   cpp_type \<times> string \<Rightarrow> ('cb, 's) HandlerBase \<Rightarrow> ('cb, 's) HandlerBase" where
  "REGISTER_RMI1 serialiseAnswer1 answer name method P1 h =
     h\<lparr>hb_functions := (hb_functions h)(name \<mapsto> rmi_lambda1 serialiseAnswer1 answer method P1)\<rparr>"

definition REGISTER_RMI2 ::
  "(bool \<Rightarrow> bool \<Rightarrow> cpp_value \<Rightarrow> cpp_value \<Rightarrow> cpp_value \<Rightarrow> string) \<Rightarrow> ('cb, 's) answer_function \<Rightarrow> string \<Rightarrow>
   (cpp_value \<Rightarrow> cpp_value \<Rightarrow> ('cb, 's) handler_obj \<Rightarrow>
     (cpp_value \<times> cpp_value \<times> cpp_value \<times> ('cb, 's) handler_obj) res) \<Rightarrow>
   cpp_type \<times> string \<Rightarrow> cpp_type \<times> string \<Rightarrow> ('cb, 's) HandlerBase \<Rightarrow> ('cb, 's) HandlerBase" where
  "REGISTER_RMI2 serialiseAnswer2 answer name method P1 P2 h =
     h\<lparr>hb_functions := (hb_functions h)(name \<mapsto> rmi_lambda2 serialiseAnswer2 answer method P1 P2)\<rparr>"

section \<open>Calls without parameters\<close>

definition make_call0 ::
  "(istream \<Rightarrow> cpp_value \<Rightarrow> cpp_value res) \<Rightarrow> 'w send_and_wait \<Rightarrow> cpp_type \<Rightarrow> string \<Rightarrow> string \<Rightarrow> 'w \<Rightarrow>
   (cpp_value \<times> 'w) res" where
  "make_call0 parseAnswerTR sendAndWait TR protocol sg w =
     res_bind (sendAndWait protocol sg [] w) (\<lambda>(answer, w').
     res_bind (parseAnswerTR (istringstream answer) (default_value TR)) (\<lambda>retval.
     Inr (retval, w')))"

text \<open>The macro calls \<open>make_call\<close> with the protocol only; there is no such overload.\<close>

definition MAKE_RMI0 :: "(string \<Rightarrow> 'w \<Rightarrow> (cpp_value \<times> 'w) res) \<Rightarrow> ProtocolBase \<Rightarrow> 'w \<Rightarrow> (cpp_value \<times> 'w) res" where
  "MAKE_RMI0 make_call pb w = make_call (pb_name pb) w"

section \<open>Arguments\<close>

lemma call_texts:
  "os_out (ObjectSer_put serialize (ObjectSer []) t1) =
     CHR ''{'' # comma_sep (map text_of (returned [(T1, True)] [t1]))"
  "os_out (ObjectSer_put serialize (ObjectSer_put serialize (ObjectSer []) t1) t2) =
     CHR ''{'' # comma_sep (map text_of (returned [(T1, True), (T2, True)] [t1, t2]))"
  using ObjectSer_fields_text [of "[]" "[t1]"] ObjectSer_fields_text [of "[]" "[t1, t2]"] by simp_all

lemma readData_fields:
  "readData1 T1 dat t1 =
     res_bind (ObjectDeser (istringstream dat)) (\<lambda>(deser, _).
     res_bind (opt_fields [(T1, True)] [t1] deser) (\<lambda>(vs, _). Inr (vs ! 0)))"
  "readData2 T1 T2 dat t1 t2 =
     res_bind (ObjectDeser (istringstream dat)) (\<lambda>(deser, _).
     res_bind (opt_fields [(T1, True), (T2, True)] [t1, t2] deser)
       (\<lambda>(vs, _). Inr (vs ! 0, vs ! 1)))"
  by (auto simp: readData1_def readData2_def OptionalDeserialiser_def res_bind_def split: sum.split prod.split)

lemma readData1_call:
  assumes "plain_string s"
  shows "readData1 TString (os_out (ObjectSer_put serialize (ObjectSer []) (VString s))) t1 = Inr (VString s)"
proof -
  have r: "readable [(TString, True)] [VString s]" "ends_in_string (returned [(TString, True)] [VString s])"
    using assms by (simp_all add: ends_in_string_def)
  show ?thesis
    unfolding readData_fields call_texts(1) [of "VString s" TString] ObjectDeser_open_fields [OF r]
    using opt_fields_cut [OF r(1), of "[t1]"] r(2) by (simp del: opt_fields.simps returned.simps)
qed

lemma readData2_call:
  assumes "wf_value T1 v1 \<and> overwritten T1" and "plain_string s"
  shows "readData2 T1 TString
      (os_out (ObjectSer_put serialize (ObjectSer_put serialize (ObjectSer []) v1) (VString s))) t1 t2 =
    Inr (v1, VString s)"
proof -
  have r: "readable [(T1, True), (TString, True)] [v1, VString s]"
    "ends_in_string (returned [(T1, True), (TString, True)] [v1, VString s])"
    using assms by (simp_all add: ends_in_string_def)
  show ?thesis
    unfolding readData_fields call_texts(2) [of v1 "VString s" T1 TString] ObjectDeser_open_fields [OF r]
    using opt_fields_cut [OF r(1), of "[t1, t2]"] r(2) by (simp del: opt_fields.simps returned.simps)
qed

context transport
begin

lemma make_call_reads:
  "serve sg [] w = Inr (ans, w') \<Longrightarrow> make_call0 parse saw TR protocol sg w =
    res_bind (parse (istringstream ans) (default_value TR)) (\<lambda>r. Inr (r, w'))"
  "serve sg (os_out (ObjectSer_put serialize (ObjectSer []) t1)) w = Inr (ans, w') \<Longrightarrow>
    make_call1 saw TR P1 protocol sg t1 w =
    res_bind (parseAnswer1 TR P1 (istringstream ans) (default_value TR) t1) (\<lambda>r. Inr (r, w'))"
  "serve sg (os_out (ObjectSer_put serialize (ObjectSer_put serialize (ObjectSer []) t1) t2)) w = Inr (ans, w') \<Longrightarrow>
    make_call2 saw TR P1 P2 protocol sg t1 t2 w =
    res_bind (parseAnswer2 TR P1 P2 (istringstream ans) (default_value TR) t1 t2) (\<lambda>r. Inr (r, w'))"
  by (auto dest!: saw_serve [where protocol = protocol] simp: make_call0_def make_call1_def make_call2_def)

end

text \<open>A registered function that answers, on the handler's thread.\<close>

lemma handler_serves:
  assumes "GetThreadId (hb_thread h) = Some me" and "hb_functions h name = Some f"
    and "f dat (NetInfo_new uninit) ((hb_obj h)\<lparr>hb_currNetInfo := NetInfo_new uninit\<rparr>) =
      AdminHandler_sendAnswer (NetInfo_new uninit) ans obj"
  shows "handler_serve me uninit name dat h =
    Inr (ans, h\<lparr>hb_obj := obj\<lparr>derived := (derived obj)\<lparr>answer_text := ans\<rparr>, hb_currNetInfo := NetInfo_new uninit\<rparr>\<rparr>)"
  using assms by (simp add: handler_serve_def AdminHandler_sendAnswer_def)

section \<open>Properties\<close>


text \<open>Overloads written like the one for three parameters.\<close>

definition write_answer1 :: "bool \<Rightarrow> cpp_value \<Rightarrow> cpp_value \<Rightarrow> string" where
  "write_answer1 r1 tr t1 = os_out (OptionalSerialiser r1 (ObjectSer_put serialize (ObjectSer []) tr) t1)"

definition write_answer2 :: "bool \<Rightarrow> bool \<Rightarrow> cpp_value \<Rightarrow> cpp_value \<Rightarrow> cpp_value \<Rightarrow> string" where
  "write_answer2 r1 r2 tr t1 t2 =
     os_out (OptionalSerialiser r2 (OptionalSerialiser r1 (ObjectSer_put serialize (ObjectSer []) tr) t1) t2)"

definition write_answer0 :: "cpp_value \<Rightarrow> string" where
  "write_answer0 tr = os_out (ObjectSer_put serialize (ObjectSer []) tr)"

definition whoami :: "(unit, nat answering) handler_obj \<Rightarrow> (cpp_value \<times> (unit, nat answering) handler_obj) res" where
  "whoami obj = Inr (VString ''hello'', obj\<lparr>derived := (derived obj)\<lparr>impl := impl (derived obj) + 5\<rparr>\<rparr>)"

definition greet :: "cpp_value \<Rightarrow> (unit, nat answering) handler_obj \<Rightarrow>
  (cpp_value \<times> cpp_value \<times> (unit, nat answering) handler_obj) res" where
  "greet t1 obj = Inr (VString ''hello'', t1, obj\<lparr>derived := (derived obj)\<lparr>impl := impl (derived obj) + 1\<rparr>\<rparr>)"

definition rename :: "cpp_value \<Rightarrow> cpp_value \<Rightarrow> (unit, nat answering) handler_obj \<Rightarrow>
  (cpp_value \<times> cpp_value \<times> cpp_value \<times> (unit, nat answering) handler_obj) res" where
  "rename t1 t2 obj = Inr (VString ''done'', t1, VString ''bob'', obj)"

definition demo_small :: "(unit, nat answering) HandlerBase" where
  "demo_small = REGISTER_RMI0 write_answer0 AdminHandler_sendAnswer ''whoami'' whoami
     (REGISTER_RMI1 write_answer1 AdminHandler_sendAnswer ''greet'' greet (TString, ''const std::string &'')
     (REGISTER_RMI2 write_answer2 AdminHandler_sendAnswer ''rename'' rename (TInt, ''const std::string &'')
       (TString, ''std::string &'')
       ((HandlerBase_new False 7 0 ''small'' \<lparr>impl = 0, answer_text = []\<rparr>)\<lparr>hb_thread :=
          Process_start (ThreadedClass False 7 ''small'')\<rparr>)))"

lemma demo_answers:
  "parseAnswer0 TString (istringstream (write_answer0 (VString ''hello''))) (VString []) = Inr (VString ''hello'')"
  "parseAnswer1 TString (TString, False) (istringstream (write_answer1 False (VString ''hello'') (VString ''amy'')))
     (VString []) (VString ''amy'') = Inr (VString ''hello'', VString ''amy'')"
  "parseAnswer2 TString (TInt, False) (TString, True)
     (istringstream (write_answer2 False True (VString ''done'') (VInt 3) (VString ''bob''))) (VString []) (VInt 3)
     (VString ''amy'') = Inr (VString ''done'', VInt 3, VString ''bob'')"
proof -
  let ?hello = "CHR ''{'' # dquote # ''hello'' @ [dquote]"
  let ?bob = "CHR ''{'' # dquote # ''done'' @ [dquote, CHR '','', dquote] @ ''bob'' @ [dquote]"
  have w: "write_answer0 (VString ''hello'') = ?hello" "write_answer1 False (VString ''hello'') v = ?hello"
    "write_answer2 False True (VString ''done'') v (VString ''bob'') = ?bob" for v
    by (simp_all add: write_answer0_def write_answer1_def write_answer2_def OptionalSerialiser_def ObjectSer_put_def
        ObjectSer_def serialize_string_escape)
  have o: "ObjectDeser (istringstream ?hello) = Inr (stream_at (dquote # ''hello''), stream_end)"
    "ObjectDeser (istringstream ?bob) =
      Inr (stream_at (dquote # ''done'' @ [dquote, CHR '','', dquote] @ ''bob''), stream_end)" by code_simp+
  have d: "deserialize_string (stream_at (dquote # ''hello'')) = Inr (''hello'', stream_end)"
    "deserialize_string (stream_at (dquote # ''done'' @ [dquote, CHR '','', dquote] @ ''bob'')) =
      Inr (''done'', stream_at (dquote # ''bob''))"
    "deserialize_string (stream_at (dquote # ''bob'')) = Inr (''bob'', stream_end)" by code_simp+
  show "parseAnswer0 TString (istringstream (write_answer0 (VString ''hello''))) (VString []) = Inr (VString ''hello'')"
    unfolding w parseAnswer0_def o using d(1) by simp
  show "parseAnswer1 TString (TString, False) (istringstream (write_answer1 False (VString ''hello'') (VString ''amy'')))
     (VString []) (VString ''amy'') = Inr (VString ''hello'', VString ''amy'')"
    unfolding w parseAnswer1_def o OptionalDeserialiser_def using d(1) by simp
  show "parseAnswer2 TString (TInt, False) (TString, True)
     (istringstream (write_answer2 False True (VString ''done'') (VInt 3) (VString ''bob''))) (VString []) (VInt 3)
     (VString ''amy'') = Inr (VString ''done'', VInt 3, VString ''bob'')"
    unfolding w parseAnswer2_def o OptionalDeserialiser_def using d(2,3) by simp
qed


end
