(* ===== verification/HandlerThread.thy ===== *)
theory HandlerThread
  imports Handlers
begin

text \<open>
  A handler with its thread: \<open>HandlerBase::handleCall\<close> (\<open>lib/handlerbase.cpp\<close>) posts the calls of other threads
  to the queue, and \<open>WorkerThread::Process\<close> (\<open>lib/workerthread.cpp\<close>) runs the posted closures, which call
  \<open>handleCall\<close> again, now on the handler's own thread. The theory composes the two: any number of
  callers, the worker and the timer take their steps in any order, and the object behind the handler changes as if
  the calls were made one after the other.
\<close>

section \<open>Steps of a handler\<close>

text \<open>
  The message taken holds a call: the closure calls \<open>handleCall\<close> on this thread, then the loop
  goes on. An exception of the registered function leaves the thread and ends the program.
\<close>

definition run_message :: "u64 \<Rightarrow> 'cb call ThreadMsg \<Rightarrow> ('cb, 's) HandlerBase \<Rightarrow> ('cb, 's) HandlerBase res" where
  "run_message uninit msg h =
     (case (msg_callback msg, GetThreadId (hb_thread h)) of
        (Some (sg, dat, netInfo), Some own) \<Rightarrow>
          res_bind (handleCall own uninit sg dat netInfo h) (\<lambda>h.
            Inr (h\<lparr>hb_thread := Process_handle msg (hb_thread h)\<rparr>))
      | _ \<Rightarrow> Inr (h\<lparr>hb_thread := Process_handle msg (hb_thread h)\<rparr>))"

inductive handler_step :: "('cb, 's) HandlerBase \<Rightarrow> ('cb, 's) HandlerBase \<Rightarrow> bool" where
  call: "GetThreadId (hb_thread h) \<noteq> Some me \<Longrightarrow> handleCall me uninit sg dat netInfo h = Inr h' \<Longrightarrow> handler_step h h'"
| run: "w_pc (hb_thread h) = W_Handle msg \<Longrightarrow> msg_type msg = MSG_POST_USER_DATA \<Longrightarrow>
    run_message uninit msg h = Inr h' \<Longrightarrow> handler_step h h'"
| thread: "worker_step (hb_thread h) w \<Longrightarrow> ran w = ran (hb_thread h) \<Longrightarrow> handler_step h (h\<lparr>hb_thread := w\<rparr>)"

inductive_cases handler_stepE: "handler_step h h'"

definition handler_begin :: "('cb, 's) HandlerBase \<Rightarrow> bool" where
  "handler_begin h \<longleftrightarrow> (\<exists>uninit fresh name. hb_thread h = ThreadedClass uninit fresh name)"

section \<open>Calls one after the other\<close>

definition exec_call ::
  "(string \<Rightarrow> ('cb, 's) rmi_function option) \<Rightarrow> 'cb call \<Rightarrow> ('cb, 's) handler_obj \<Rightarrow> ('cb, 's) handler_obj res" where
  "exec_call functions c obj =
     (case c of (sg, dat, netInfo) \<Rightarrow>
        case functions sg of
          None \<Rightarrow> Inr obj
        | Some f \<Rightarrow> f dat netInfo (obj\<lparr>hb_currNetInfo := netInfo\<rparr>))"

fun exec_calls ::
  "(string \<Rightarrow> ('cb, 's) rmi_function option) \<Rightarrow> 'cb call list \<Rightarrow> ('cb, 's) handler_obj \<Rightarrow> ('cb, 's) handler_obj res" where
  "exec_calls functions [] obj = Inr obj"
| "exec_calls functions (c # cs) obj = res_bind (exec_call functions c obj) (exec_calls functions cs)"

lemma exec_calls_append:
  "exec_calls functions (cs @ ds) obj = res_bind (exec_calls functions cs obj) (exec_calls functions ds)"
proof (induction cs arbitrary: obj)
  case (Cons c cs)
  then show ?case by (cases "exec_call functions c obj") simp_all
qed simp

lemma exec_call_derived:
  assumes "exec_call functions c obj = Inr obj1" and "derived obj' = derived obj"
  shows "\<exists>obj1'. exec_call functions c obj' = Inr obj1' \<and> derived obj1' = derived obj1"
proof -
  have same: "obj'\<lparr>hb_currNetInfo := ni\<rparr> = obj\<lparr>hb_currNetInfo := ni\<rparr>" for ni
    using assms(2) by (cases obj; cases obj') simp
  obtain sg dat ni where c: "c = (sg, dat, ni)" by (cases c)
  show ?thesis
    using assms by (cases "functions sg") (simp_all add: exec_call_def c same)
qed

text \<open>What has run so far explains the object; the current network information is overwritten by every call.\<close>

definition sequential :: "('cb, 's) HandlerBase \<Rightarrow> ('cb, 's) HandlerBase \<Rightarrow> bool" where
  "sequential h0 h \<longleftrightarrow> worker_inv (hb_thread h) \<and> hb_functions h = hb_functions h0 \<and>
     (\<exists>obj. exec_calls (hb_functions h0) (ran (hb_thread h)) (hb_obj h0) = Inr obj \<and> derived obj = derived (hb_obj h))"

lemma run_message_call:
  assumes "msg_type msg = MSG_POST_USER_DATA" and "msg_callback msg = Some c" and "GetThreadId (hb_thread h) = Some own"
    and "run_message uninit msg h = Inr h'"
  obtains obj where "exec_call (hb_functions h) c (hb_obj h) = Inr obj" and "derived (hb_obj h') = derived obj"
    and "hb_functions h' = hb_functions h" and "hb_thread h' = Process_handle msg (hb_thread h)"
proof -
  obtain sg dat ni where c: "c = (sg, dat, ni)" by (cases c)
  from assms c obtain h1 where h1: "handleCall own uninit sg dat ni h = Inr h1"
    "h' = h1\<lparr>hb_thread := Process_handle msg (hb_thread h1)\<rparr>"
    by (auto simp: run_message_def)
  show thesis
  proof (cases "hb_functions h sg")
    case None
    with h1(1) have "h1 = h" by (simp add: handleCall_same [OF assms(3)])
    then show thesis by (intro that [of "hb_obj h"]) (simp_all add: h1(2) c None exec_call_def)
  next
    case (Some f)
    with h1(1) obtain obj where obj: "f dat ni ((hb_obj h)\<lparr>hb_currNetInfo := ni\<rparr>) = Inr obj"
      "h1 = h\<lparr>hb_obj := obj\<lparr>hb_currNetInfo := NetInfo_new uninit\<rparr>\<rparr>"
      by (auto simp: handleCall_same [OF assms(3)])
    then show thesis by (intro that [of obj]) (simp_all add: h1(2) c Some exec_call_def)
  qed
qed

lemma sequential_run:
  assumes "sequential h0 h" and "w_pc (hb_thread h) = W_Handle msg" and "msg_type msg = MSG_POST_USER_DATA"
    and "run_message uninit msg h = Inr h'"
  shows "sequential h0 h'"
proof -
  have inv: "worker_inv (hb_thread h)" "worker_inv (Process_handle msg (hb_thread h))"
    using assms(1) worker.inv_step [OF _ worker_step.handle [OF assms(2)]] by (auto simp: sequential_def)
  have "GetThreadId (hb_thread h) \<noteq> None"
    using inv(1) assms(2) by (auto simp: worker_inv_def threads_ok_def GetThreadId_def split: if_splits)
  then obtain own where own: "GetThreadId (hb_thread h) = Some own" by blast
  show ?thesis
  proof (cases "msg_callback msg")
    case None
    with assms own inv show ?thesis
      by (auto simp: sequential_def run_message_def Process_handle_def)
  next
    case (Some c)
    obtain obj where obj: "exec_call (hb_functions h) c (hb_obj h) = Inr obj" "derived (hb_obj h') = derived obj"
      "hb_functions h' = hb_functions h" "hb_thread h' = Process_handle msg (hb_thread h)"
      using run_message_call [OF assms(3) Some own assms(4)] by blast
    from assms(1) obtain o1 where o1: "exec_calls (hb_functions h0) (ran (hb_thread h)) (hb_obj h0) = Inr o1"
      "derived o1 = derived (hb_obj h)" "hb_functions h = hb_functions h0" by (auto simp: sequential_def)
    obtain o2 where "exec_call (hb_functions h0) c o1 = Inr o2" "derived o2 = derived obj"
      using exec_call_derived [OF obj(1) o1(2)] o1(3) by auto
    moreover have "ran (hb_thread h') = ran (hb_thread h) @ [c]"
      using obj(4) Some assms(3) by (simp add: Process_handle_def)
    ultimately show ?thesis
      using o1 obj inv(2) by (simp add: sequential_def exec_calls_append)
  qed
qed

lemma sequential_step: "sequential h0 h \<Longrightarrow> handler_step h h' \<Longrightarrow> sequential h0 h'"
proof (elim handler_stepE)
  fix me uninit sg dat ni
  assume s: "sequential h0 h" and o: "GetThreadId (hb_thread h) \<noteq> Some me"
    and c: "handleCall me uninit sg dat ni h = Inr h'"
  from c have h': "h' = h\<lparr>hb_thread := PostMsg (Some (sg, dat, ni)) (hb_thread h)\<rparr>"
    by (simp add: handleCall_other [OF o])
  with s worker.inv_step [OF _ worker_step.post, of "hb_thread h" "Some (sg, dat, ni)"]
  show "sequential h0 h'" by (simp add: sequential_def PostMsg_def)
next
  fix w assume "sequential h0 h" "h' = h\<lparr>hb_thread := w\<rparr>" "worker_step (hb_thread h) w" "ran w = ran (hb_thread h)"
  then show "sequential h0 h'" using worker.inv_step by (auto simp: sequential_def)
qed (auto intro: sequential_run)

lemma sequential_begin: "handler_begin h \<Longrightarrow> sequential h h"
proof -
  assume "handler_begin h"
  then obtain b i n where t: "hb_thread h = ThreadedClass b i n" by (auto simp: handler_begin_def)
  have "worker_inv (hb_thread h)"
    unfolding t ThreadedClass_def
    by (rule worker.inv_step [OF worker.inv_start worker_step.create]) (auto simp: worker_start_def)
  moreover have "ran (hb_thread h) = []" by (simp add: t ThreadedClass_def CreateThread_def WorkerThread_def)
  ultimately show ?thesis by (simp add: sequential_def)
qed

interpretation handler: invariant_of "\<lambda>h. handler_begin h \<and> h = h0" handler_step "sequential h0"
  by unfold_locales (auto simp: sequential_begin intro: sequential_step)


text \<open>
  What running a call does: an exception of the registered function leaves the thread, and otherwise the
  object is what the function made of it.
\<close>

lemma run_message_exec:
  assumes "msg_type msg = MSG_POST_USER_DATA" and "msg_callback msg = Some c" and "GetThreadId (hb_thread h) = Some own"
  shows "case exec_call (hb_functions h) c (hb_obj h) of
      Inl e \<Rightarrow> run_message uninit msg h = Inl e
    | Inr obj \<Rightarrow> \<exists>h'. run_message uninit msg h = Inr h' \<and> derived (hb_obj h') = derived obj \<and>
        hb_functions h' = hb_functions h \<and> hb_thread h' = Process_handle msg (hb_thread h)"
proof -
  obtain sg dat ni where c: "c = (sg, dat, ni)" by (cases c)
  show ?thesis
  proof (cases "hb_functions h sg")
    case None
    with assms c show ?thesis by (simp add: run_message_def handleCall_same exec_call_def)
  next
    case (Some f)
    with assms c show ?thesis
      by (cases "f dat ni ((hb_obj h)\<lparr>hb_currNetInfo := ni\<rparr>)")
        (simp_all add: run_message_def handleCall_same exec_call_def)
  qed
qed

text \<open>The loop takes the next call and runs it.\<close>

lemma queued_call_taken:
  assumes "w_pc (hb_thread h) = W_Loop" and "GetThreadId (hb_thread h) = Some own"
    and "m_queue (hb_thread h) = \<lparr>msg_type = MSG_POST_USER_DATA, msg_callback = Some c\<rparr> # q"
  shows "\<exists>h1 msg. handler_step h h1 \<and> w_pc (hb_thread h1) = W_Handle msg \<and>
    (case exec_call (hb_functions h) c (hb_obj h) of
       Inl e \<Rightarrow> run_message uninit msg h1 = Inl e
     | Inr obj \<Rightarrow> \<exists>h2. run_message uninit msg h1 = Inr h2 \<and> handler_step h1 h2 \<and>
         w_pc (hb_thread h2) = W_Loop \<and> m_queue (hb_thread h2) = q \<and>
         ran (hb_thread h2) = ran (hb_thread h) @ [c] \<and> derived (hb_obj h2) = derived obj)"
proof -
  let ?m = "\<lparr>msg_type = MSG_POST_USER_DATA, msg_callback = Some c\<rparr>"
  let ?h1 = "h\<lparr>hb_thread := Process_take (hb_thread h)\<rparr>"
  have take: "handler_step h ?h1"
    using assms(1,3) by (intro handler_step.thread worker_step.take_msg) (simp_all add: Process_take_def)
  have pc: "w_pc (hb_thread ?h1) = W_Handle ?m" "GetThreadId (hb_thread ?h1) = Some own"
    using assms(2,3) by (simp_all add: Process_take_def GetThreadId_def)
  have exec: "case exec_call (hb_functions h) c (hb_obj h) of
      Inl e \<Rightarrow> run_message uninit ?m ?h1 = Inl e
    | Inr obj \<Rightarrow> \<exists>h'. run_message uninit ?m ?h1 = Inr h' \<and> derived (hb_obj h') = derived obj \<and>
        hb_functions h' = hb_functions h \<and> hb_thread h' = Process_handle ?m (Process_take (hb_thread h))"
    using run_message_exec [OF _ _ pc(2), of ?m c uninit] by (simp cong: sum.case_cong)
  show ?thesis
  proof (intro exI [of _ ?h1] exI [of _ ?m] conjI take pc)
    show "case exec_call (hb_functions h) c (hb_obj h) of
       Inl e \<Rightarrow> run_message uninit ?m ?h1 = Inl e
     | Inr obj \<Rightarrow> \<exists>h2. run_message uninit ?m ?h1 = Inr h2 \<and> handler_step ?h1 h2 \<and>
         w_pc (hb_thread h2) = W_Loop \<and> m_queue (hb_thread h2) = q \<and>
         ran (hb_thread h2) = ran (hb_thread h) @ [c] \<and> derived (hb_obj h2) = derived obj"
    proof (cases "exec_call (hb_functions h) c (hb_obj h)")
      case (Inr obj)
      with exec obtain h2 where h2: "run_message uninit ?m ?h1 = Inr h2" "derived (hb_obj h2) = derived obj"
        "hb_thread h2 = Process_handle ?m (Process_take (hb_thread h))" by auto
      have "handler_step ?h1 h2" using handler_step.run [OF pc(1) _ h2(1)] by simp
      with h2 Inr assms(3) show ?thesis by (auto simp: Process_take_def Process_handle_def)
    qed (use exec in simp)
  qed
qed

lemma queued_call_runs:
  assumes "w_pc (hb_thread h) = W_Loop" and "GetThreadId (hb_thread h) = Some own"
    and "m_queue (hb_thread h) = \<lparr>msg_type = MSG_POST_USER_DATA, msg_callback = Some (sg, dat, ni)\<rparr> # q"
    and "exec_call (hb_functions h) (sg, dat, ni) (hb_obj h) = Inr obj"
  shows "\<exists>h'. handler_step\<^sup>*\<^sup>* h h' \<and> w_pc (hb_thread h') = W_Loop \<and> m_queue (hb_thread h') = q \<and>
    ran (hb_thread h') = ran (hb_thread h) @ [(sg, dat, ni)] \<and> derived (hb_obj h') = derived obj"
proof -
  obtain h1 h2 where "handler_step h h1" "handler_step h1 h2" "w_pc (hb_thread h2) = W_Loop" "m_queue (hb_thread h2) = q"
    "ran (hb_thread h2) = ran (hb_thread h) @ [(sg, dat, ni)]" "derived (hb_obj h2) = derived obj"
    using queued_call_taken [OF assms(1-3), of 0] assms(4) by auto
  then show ?thesis by (intro exI [of _ h2]) (simp add: rtranclp.rtrancl_into_rtrancl)
qed

section \<open>Properties\<close>

text \<open>
  C2 A handler is sequential, whoever calls it: in every interleaving of any number of calling threads with the
  worker and its timer, the object of the handler is what running the calls one at a time makes of it,
  in the order in which they were posted, and after the worker has returned these are all the calls posted
  before the exit message.
\<close>

theorem handler_calls_sequential:
  assumes "handler_begin h0" and "handler_step\<^sup>*\<^sup>* h0 h"
  shows "\<exists>obj. exec_calls (hb_functions h0) (ran (hb_thread h)) (hb_obj h0) = Inr obj \<and> derived obj = derived (hb_obj h) \<and>
    prefix (ran (hb_thread h)) (callbacks (before_exit (pushed (hb_thread h)))) \<and>
    (w_pc (hb_thread h) = W_Returned \<longrightarrow> ran (hb_thread h) = callbacks (before_exit (pushed (hb_thread h))))"
proof -
  have s: "sequential h0 h" using handler.inv_reachable [of h0 h0 h] assms by blast
  then have inv: "worker_inv (hb_thread h)" by (simp add: sequential_def)
  with s show ?thesis
    using returned_ran [OF inv] ran_prefix [OF inv] by (auto simp: sequential_def)
qed


definition demo_ni :: "unit NetInfo" where
  "demo_ni = \<lparr>ni_clientId = 5, ni_retCallback = Some ()\<rparr>"

definition demo_new :: "(unit, nat) HandlerBase" where
  "demo_new = demo_handler\<lparr>hb_thread := ThreadedClass False 7 ''H''\<rparr>"

lemma demo_new_begin: "handler_begin demo_new"
  by (auto simp: handler_begin_def demo_new_def)

lemma demo_exec:
  "\<exists>obj. exec_call (hb_functions demo_handler) (''f'', ''[10,20,30'', demo_ni) (hb_obj demo_handler) = Inr obj \<and> derived obj = 1"
  by (simp add: exec_call_def demo_handler_def REGISTER_RMI3_def HandlerBase_new_def rmi_lambda3_def demo_readData
      sendAnswer_def demo_ni_def)

lemma demo_call_run:
  "\<exists>h. handler_step\<^sup>*\<^sup>* demo_new h \<and> ran (hb_thread h) = [(''f'', ''[10,20,30'', demo_ni)] \<and> derived (hb_obj h) = 1"
proof -
  have start: "handler_step demo_new demo_handler"
    using handler_step.thread [of demo_new "Process_start (hb_thread demo_new)"] worker_step.start [of "hb_thread demo_new"]
    by (simp add: demo_new_def demo_handler_def REGISTER_RMI3_def HandlerBase_new_def ThreadedClass_def demo_defs)
  let ?h = "demo_handler\<lparr>hb_thread := PostMsg (Some (''f'', ''[10,20,30'', demo_ni)) (hb_thread demo_handler)\<rparr>"
  have "handleCall 1 0 ''f'' ''[10,20,30'' demo_ni demo_handler = Inr ?h"
    by (simp add: handleCall_other demo_handler_thread)
  then have call: "handler_step demo_handler ?h" by (intro handler_step.call [of _ 1]) (simp_all add: demo_handler_thread)
  obtain obj where obj: "exec_call (hb_functions demo_handler) (''f'', ''[10,20,30'', demo_ni) (hb_obj demo_handler) = Inr obj"
    "derived obj = 1" using demo_exec by blast
  have q: "w_pc (hb_thread ?h) = W_Loop" "GetThreadId (hb_thread ?h) = Some 7" "ran (hb_thread ?h) = []"
    "m_queue (hb_thread ?h) = \<lparr>msg_type = MSG_POST_USER_DATA, msg_callback = Some (''f'', ''[10,20,30'', demo_ni)\<rparr> # []"
    by (simp_all add: demo_handler_def REGISTER_RMI3_def ThreadedClass_def demo_defs GetThreadId_def)
  have "exec_call (hb_functions ?h) (''f'', ''[10,20,30'', demo_ni) (hb_obj ?h) = Inr obj" using obj by simp
  from queued_call_runs [OF q(1,2,4) this] q(3) obj(2) obtain h where
    "handler_step\<^sup>*\<^sup>* ?h h" "ran (hb_thread h) = [(''f'', ''[10,20,30'', demo_ni)]" "derived (hb_obj h) = 1" by auto
  with start call show ?thesis by (meson converse_rtranclp_into_rtranclp)
qed

theorem handler_calls_sequential_witness:
  "\<exists>h obj. handler_step\<^sup>*\<^sup>* demo_new h \<and> ran (hb_thread h) = [(''f'', ''[10,20,30'', demo_ni)] \<and>
     exec_calls (hb_functions demo_new) [(''f'', ''[10,20,30'', demo_ni)] (hb_obj demo_new) = Inr obj \<and> derived obj = 1"
proof -
  obtain h where h: "handler_step\<^sup>*\<^sup>* demo_new h" "ran (hb_thread h) = [(''f'', ''[10,20,30'', demo_ni)]" "derived (hb_obj h) = 1"
    using demo_call_run by blast
  from handler_calls_sequential [OF demo_new_begin h(1)] h show ?thesis by auto
qed

end
