(* ===== verification/RemoteThreads.thy ===== *)
theory RemoteThreads
  imports RemoteCall HandlerThread
begin

text \<open>
  A remote call from a thread that is not the handler's, as the framework's test makes it
  (\<open>test/handlertest.cpp\<close>): \<open>AdminRemote::sendAndWait\<close> first calls \<open>handleCall\<close>, which only posts
  the call, and then reads \<open>answer_\<close>. Between the two statements the handler's thread may run, or
  not. What it does there is the argument \<open>between\<close>, any sequence of steps of the handler.
\<close>

section \<open>The two statements of sendAndWait\<close>

definition sendAndWait_between ::
  "(('cb, 's answering) HandlerBase \<Rightarrow> ('cb, 's answering) HandlerBase) \<Rightarrow> thread_id \<Rightarrow> u64 \<Rightarrow>
   ('cb, 's answering) HandlerBase send_and_wait" where
  "sendAndWait_between between me uninit protocol sg dat h =
     res_bind (handleCall me uninit sg dat (NetInfo_new uninit) h) (\<lambda>h1.
       let h2 = between h1
       in Inr (answer_text (derived (hb_obj h2)), h2))"

lemma sendAndWait_between_id: "sendAndWait_between (\<lambda>h. h) me uninit = AdminRemote_sendAndWait me uninit"
  by (simp add: fun_eq_iff sendAndWait_between_def AdminRemote_sendAndWait_def)

section \<open>Steps that run no call\<close>

text \<open>Only a call that the handler's thread runs changes the object.\<close>

lemma handler_step_ran:
  assumes "handler_step h h'"
  shows "prefix (ran (hb_thread h)) (ran (hb_thread h'))"
    and "ran (hb_thread h') = ran (hb_thread h) \<Longrightarrow> hb_obj h' = hb_obj h"
proof -
  have "prefix (ran (hb_thread h)) (ran (hb_thread h')) \<and>
    (ran (hb_thread h') = ran (hb_thread h) \<longrightarrow> hb_obj h' = hb_obj h)"
    using assms
  proof (cases rule: handler_step.cases)
    case (call me uninit sg dat ni)
    then show ?thesis by (auto simp: handleCall_other PostMsg_def)
  next
    case (run msg uninit)
    show ?thesis
    proof (cases "GetThreadId (hb_thread h)")
      case None
      with run show ?thesis by (auto simp: run_message_def Process_handle_def split: option.splits)
    next
      case (Some own)
      show ?thesis
      proof (cases "msg_callback msg")
        case None
        with run show ?thesis by (auto simp: run_message_def Process_handle_def)
      next
        case (Some c)
        with run(2) have "ran (Process_handle msg (hb_thread h)) = ran (hb_thread h) @ [c]"
          by (simp add: Process_handle_def)
        moreover have "hb_thread h' = Process_handle msg (hb_thread h)"
          by (rule run_message_call [OF run(2) Some \<open>GetThreadId (hb_thread h) = Some own\<close> run(3)])
        ultimately show ?thesis by simp
      qed
    qed
  qed auto
  then show "prefix (ran (hb_thread h)) (ran (hb_thread h'))"
    and "ran (hb_thread h') = ran (hb_thread h) \<Longrightarrow> hb_obj h' = hb_obj h" by blast+
qed

lemma handler_steps_ran:
  assumes "handler_step\<^sup>*\<^sup>* h h'"
  shows "prefix (ran (hb_thread h)) (ran (hb_thread h')) \<and>
    (ran (hb_thread h') = ran (hb_thread h) \<longrightarrow> hb_obj h' = hb_obj h)"
  using assms
proof (induction rule: rtranclp_induct)
  case (step h1 h2)
  note one = handler_step_ran [OF step.hyps(2)]
  have pre: "prefix (ran (hb_thread h)) (ran (hb_thread h1))" using step.IH by blast
  have "ran (hb_thread h1) = ran (hb_thread h)" if "ran (hb_thread h2) = ran (hb_thread h)"
    using one(1) that by (intro prefix_order.antisym [OF _ pre]) simp
  with one step.IH pre show ?case by (auto intro: prefix_order.trans)
qed simp

lemma make_call3_between:
  assumes "GetThreadId (hb_thread h) \<noteq> Some me"
    and "h1 = h\<lparr>hb_thread := PostMsg (Some (name,
      os_out (ObjectSer_put serialize (ObjectSer_put serialize (ObjectSer_put serialize (ObjectSer []) t1) t2) t3),
      NetInfo_new uninit)) (hb_thread h)\<rparr>"
  shows "MAKE_RMI3 (sendAndWait_between between me uninit) protocol TR name (T1, s1) (T2, s2) (T3, s3) t1 t2 t3 h =
    res_bind (parseAnswer3 TR (T1, passed_back s1) (T2, passed_back s2) (T3, passed_back s3)
        (istringstream (answer_text (derived (hb_obj (between h1))))) (default_value TR) t1 t2 t3) (\<lambda>r.
      Inr (r, between h1))"
  using assms by (simp add: MAKE_RMI3_def make_call3_def sendAndWait_between_def handleCall_other Let_def)

section \<open>Properties\<close>



end
