(* ===== verification/Coreproto.thy ===== *)
theory Coreproto
  imports Prelude
begin

text \<open>
  The framing of packets on the wire (\<open>lib/coreproto.h\<close>): two magic bytes, the length of the data
  as a 32-bit number in network byte order, the data. The sum \<open>pkgSize + headerSize\<close> is a
  \<open>uint32_t\<close> and may wrap around; \<open>pkgSize\<close> is passed by reference and keeps what it held where
  a function returns before assigning it. A read behind the end of the buffer is
  \<open>Out_of_bounds\<close>. The overloads for a \<open>std::vector\<close> and for an array of \<open>size\<close> bytes
  differ, and are two definitions each; the two overloads of \<open>createPacket\<close> have the same body.
\<close>

section \<open>Network byte order\<close>

text \<open>\<open>htonl\<close> followed by a store, and a load followed by \<open>ntohl\<close>, on any host.\<close>

definition store_htonl :: "u32 \<Rightarrow> bytes" where
  "store_htonl w = map (\<lambda>k. char_of (unat w div 256 ^ k)) [3, 2, 1, 0]"

definition load_ntohl :: "bytes \<Rightarrow> u32" where
  "load_ntohl bs = word_of_nat (foldl (\<lambda>a b. a * 256 + of_char b) 0 bs)"

lemma length_store_htonl [simp]: "length (store_htonl w) = 4"
  by (simp add: store_htonl_def)

lemma digits_256:
  "((n div 16777216 * 256 + n div 65536 mod 256) * 256 + n div 256 mod 256) * 256 + n mod 256 = (n :: nat)"
proof -
  have "n div 16777216 = n div 65536 div 256" "n div 65536 = n div 256 div 256"
    by (simp_all add: div_mult2_eq [symmetric])
  then show ?thesis by (metis div_mult_mod_eq)
qed

lemma load_store [simp]: "load_ntohl (store_htonl w) = w"
proof -
  have "unat w div 16777216 < 256"
    using unsigned_less [of w] less_mult_imp_div_less [of "unat w" 256 16777216] by simp
  with digits_256 [of "unat w"] have "foldl (\<lambda>a b. a * 256 + of_char b) 0 (store_htonl w) = unat w"
    by (simp add: store_htonl_def)
  then show ?thesis by (simp add: load_ntohl_def)
qed

section \<open>Operations\<close>

definition headerSize :: nat where "headerSize = 6"
definition magicSize :: nat where "magicSize = 2"
definition maxPacketSize :: u32 where "maxPacketSize = 0x3FFFFFFF"

definition createPacket :: "bytes \<Rightarrow> bytes" where
  "createPacket dat =
     (let ret = [CHR ''N'', CHR ''F'', CHR 0x00, CHR 0x00, CHR 0x00, CHR 0x00];
          ret = take magicSize ret @ store_htonl (word_of_nat (length dat)) @ drop (magicSize + 4) ret
      in ret @ dat)"

definition isPacketStart :: "bytes \<Rightarrow> bool" where
  "isPacketStart dat \<longleftrightarrow>
     (if length dat < headerSize then False
      else if \<not> (dat ! 0 = CHR ''N'' \<and> dat ! 1 = CHR ''F'') then False
      else True)"

definition isPacketComplete_vector :: "bytes \<Rightarrow> u32 \<Rightarrow> bool \<times> u32" where
  "isPacketComplete_vector dat pkgSize =
     (let sz = length dat
      in if sz < headerSize then (False, pkgSize)
         else if \<not> (dat ! 0 = CHR ''N'' \<and> dat ! 1 = CHR ''F'') then (False, pkgSize)
         else let pkgSize = load_ntohl (take 4 (drop magicSize dat))
              in if pkgSize > maxPacketSize then (False, pkgSize)
                 else if sz < unat (pkgSize + word_of_nat headerSize) then (False, pkgSize)
                 else (True, pkgSize))"

definition isPacketComplete_array :: "bytes \<Rightarrow> u32 \<Rightarrow> bool \<times> u32" where
  "isPacketComplete_array dat pkgSize =
     (let size = length dat
      in if \<not> (dat ! 0 = CHR ''N'' \<and> dat ! 1 = CHR ''F'') then (False, pkgSize)
         else let pkgSize = load_ntohl (take 4 (drop magicSize dat))
              in if pkgSize > maxPacketSize then (False, pkgSize)
                 else if size < unat (pkgSize + word_of_nat headerSize) then (False, pkgSize)
                 else (True, pkgSize))"

text \<open>\<open>std::string ret(&data[headerSize], bytes)\<close>\<close>

definition string_at :: "bytes \<Rightarrow> nat \<Rightarrow> nat \<Rightarrow> string res" where
  "string_at dat pos n =
     (if pos + n \<le> length dat then Inr (take n (drop pos dat)) else Inl Out_of_bounds)"

definition fetchData_vector :: "bytes \<Rightarrow> u32 \<Rightarrow> string res" where
  "fetchData_vector dat n =
     (if headerSize < length dat then Inr []
      else if unat n > length dat + headerSize then Inr []
      else string_at dat headerSize (unat n))"

definition fetchData_array :: "bytes \<Rightarrow> u32 \<Rightarrow> string res" where
  "fetchData_array dat n =
     (if unat n > length dat + headerSize then Inr []
      else string_at dat headerSize (unat n))"

section \<open>Headers\<close>

lemmas coreproto_consts = headerSize_def magicSize_def maxPacketSize_def

lemma createPacket_eq:
  "createPacket dat = CHR ''N'' # CHR ''F'' # store_htonl (word_of_nat (length dat)) @ dat"
  by (simp add: createPacket_def magicSize_def Let_def)

lemma length_createPacket [simp]: "length (createPacket dat) = headerSize + length dat"
  by (simp add: createPacket_eq headerSize_def)

abbreviation packet_size_ok :: "bytes \<Rightarrow> bool" where
  "packet_size_ok dat \<equiv> length dat \<le> 0x3FFFFFFF"

lemma unat_packet_size: "length dat < 2 ^ 32 \<Longrightarrow> unat (word_of_nat (length dat) :: u32) = length dat"
  by (simp add: unat_of_nat take_bit_nat_eq_self)

text \<open>The guard on \<open>maxPacketSize\<close> keeps the 32-bit sum from wrapping around.\<close>

lemma unat_total_size: "n \<le> maxPacketSize \<Longrightarrow> unat (n + 6) = unat n + 6"
  by (simp add: coreproto_consts word_le_nat_alt unat_word_ariths)

lemma packet_size_le: "length dat < 2 ^ 32 \<Longrightarrow> word_of_nat (length dat) \<le> maxPacketSize \<longleftrightarrow> packet_size_ok dat"
  by (simp add: word_le_nat_alt unat_packet_size maxPacketSize_def)

lemma packet_header:
  assumes "headerSize \<le> k"
  shows "take 4 (drop magicSize (take k (createPacket dat @ rest))) = store_htonl (word_of_nat (length dat))"
    "take k (createPacket dat @ rest) ! 0 = CHR ''N''" "take k (createPacket dat @ rest) ! 1 = CHR ''F''"
proof -
  obtain j where j: "k = Suc (Suc (Suc (Suc (Suc (Suc j)))))"
    using assms by (auto simp: headerSize_def dest!: le_Suc_ex)
  obtain a b c d where "store_htonl (word_of_nat (length dat)) = [a, b, c, d]"
    by (simp add: store_htonl_def)
  then show "take 4 (drop magicSize (take k (createPacket dat @ rest))) = store_htonl (word_of_nat (length dat))"
    "take k (createPacket dat @ rest) ! 0 = CHR ''N''" "take k (createPacket dat @ rest) ! 1 = CHR ''F''"
    by (simp_all add: createPacket_eq magicSize_def j)
qed

lemma take_createPacket:
  assumes "headerSize \<le> k"
  shows "take k (createPacket dat) =
    CHR ''N'' # CHR ''F'' # store_htonl (word_of_nat (length dat)) @ take (k - headerSize) dat"
proof -
  obtain j where j: "k = Suc (Suc (Suc (Suc (Suc (Suc j)))))"
    using assms by (auto simp: headerSize_def dest!: le_Suc_ex)
  show ?thesis by (simp add: createPacket_eq j headerSize_def store_htonl_def)
qed

lemma isPacketComplete_vector_True:
  "isPacketComplete_vector dat g = (True, n) \<longleftrightarrow>
     6 \<le> length dat \<and> dat ! 0 = CHR ''N'' \<and> dat ! 1 = CHR ''F'' \<and> n = load_ntohl (take 4 (drop 2 dat)) \<and>
     n \<le> maxPacketSize \<and> unat n + 6 \<le> length dat"
  by (auto simp: isPacketComplete_vector_def Let_def unat_total_size headerSize_def magicSize_def
      not_less)

lemma isPacketComplete_array_True:
  "isPacketComplete_array dat g = (True, n) \<longleftrightarrow>
     dat ! 0 = CHR ''N'' \<and> dat ! 1 = CHR ''F'' \<and> n = load_ntohl (take 4 (drop 2 dat)) \<and>
     n \<le> maxPacketSize \<and> unat n + 6 \<le> length dat"
  by (auto simp: isPacketComplete_array_def Let_def unat_total_size headerSize_def magicSize_def
      not_less)

lemma isPacketComplete_vector_take:
  assumes "packet_size_ok dat" and "k \<le> headerSize + length dat + length rest"
  shows "fst (isPacketComplete_vector (take k (createPacket dat @ rest)) g) \<longleftrightarrow> headerSize + length dat \<le> k"
proof (cases "headerSize \<le> k")
  case True
  have "length dat < 2 ^ 32" using assms(1) by simp
  then have "word_of_nat (length dat) \<le> maxPacketSize"
    "unat (word_of_nat (length dat) + 6 :: u32) = length dat + 6"
    using assms(1) unat_packet_size [of dat] unat_total_size [of "word_of_nat (length dat)"]
    by (simp_all add: packet_size_le)
  with True assms(2) show ?thesis
    unfolding isPacketComplete_vector_def packet_header [OF True] load_store
    by (auto simp: Let_def headerSize_def not_less [symmetric])
next
  case False
  then show ?thesis by (simp add: isPacketComplete_vector_def)
qed

section \<open>The contract of a framing\<close>

text \<open>
  A receiver relies on a complete frame being recognised in a buffer that starts with it, with the
  length of its data. Where the data can also be fetched, what was sent is received.
\<close>

locale framing =
  fixes frame :: "bytes \<Rightarrow> bytes"
    and complete :: "bytes \<Rightarrow> u32 \<Rightarrow> bool \<times> u32"
    and ok :: "bytes \<Rightarrow> bytes \<Rightarrow> bool"
  assumes complete_frame: "ok dat rest \<Longrightarrow> complete (frame dat @ rest) g = (True, word_of_nat (length dat))"

locale fetching = framing +
  fixes fetch :: "bytes \<Rightarrow> u32 \<Rightarrow> string res"
  assumes fetch_frame: "ok dat rest \<Longrightarrow> fetch (frame dat @ rest) (word_of_nat (length dat)) = Inr dat"
begin

lemma receive_frame:
  "ok dat rest \<Longrightarrow> (case complete (frame dat @ rest) g of (b, n) \<Rightarrow> (b, fetch (frame dat @ rest) n)) = (True, Inr dat)"
  by (simp add: complete_frame fetch_frame)

end

lemma isPacketComplete_vector_frame:
  assumes "packet_size_ok dat"
  shows "isPacketComplete_vector (createPacket dat @ rest) g = (True, word_of_nat (length dat))"
proof -
  let ?k = "length (createPacket dat @ rest)"
  have "fst (isPacketComplete_vector (createPacket dat @ rest) g)"
    using isPacketComplete_vector_take [OF assms, of ?k rest g] by simp
  then obtain n where "isPacketComplete_vector (createPacket dat @ rest) g = (True, n)"
    by (metis prod.collapse)
  moreover from this have "n = load_ntohl (take 4 (drop 2 (createPacket dat @ rest)))"
    unfolding isPacketComplete_vector_True by blast
  then have "n = word_of_nat (length dat)"
    using packet_header(1) [of ?k dat rest] by (simp add: magicSize_def)
  ultimately show ?thesis by simp
qed

interpretation vector_framing: framing createPacket isPacketComplete_vector "\<lambda>dat rest. packet_size_ok dat"
  by unfold_locales (simp add: isPacketComplete_vector_frame)

interpretation array_framing: fetching createPacket isPacketComplete_array "\<lambda>dat rest. packet_size_ok dat" fetchData_array
proof
  fix dat rest :: bytes and g
  assume ok: "packet_size_ok dat"
  then show "isPacketComplete_array (createPacket dat @ rest) g = (True, word_of_nat (length dat))"
    using isPacketComplete_vector_frame [OF ok, of rest g]
    unfolding isPacketComplete_vector_True isPacketComplete_array_True by blast
  show "fetchData_array (createPacket dat @ rest) (word_of_nat (length dat)) = Inr dat"
    using ok unat_packet_size [of dat]
    by (simp add: fetchData_array_def string_at_def headerSize_def createPacket_eq store_htonl_def)
qed

section \<open>Properties\<close>

text \<open>
  C5 A packet that lies at the start of a receive buffer, with anything behind it, is recognised as
  complete, with the right length, and its data is fetched exactly.
\<close>

theorem packet_roundtrip:
  assumes "length dat \<le> 0x3FFFFFFF"
  shows "isPacketComplete_array (createPacket dat @ rest) g = (True, word_of_nat (length dat)) \<and>
    fetchData_array (createPacket dat @ rest) (word_of_nat (length dat)) = Inr dat"
  using array_framing.complete_frame [OF assms] array_framing.fetch_frame [OF assms] by simp

theorem packet_roundtrip_witness:
  "isPacketComplete_array (createPacket ''abc'' @ ''xyz'') 7 = (True, 3) \<and>
   fetchData_array (createPacket ''abc'' @ ''xyz'') 3 = Inr ''abc''"
  using packet_roundtrip [of "''abc''" "''xyz''" 7] by simp

text \<open>
  Packets arriving in pieces: the bytes received so far are reported as a complete packet exactly
  from the moment the whole packet has arrived.
\<close>

theorem packet_complete_iff_arrived:
  assumes "length dat \<le> 0x3FFFFFFF" and "k \<le> length (createPacket dat @ rest)"
  shows "fst (isPacketComplete_vector (take k (createPacket dat @ rest)) g) \<longleftrightarrow>
    length (createPacket dat) \<le> k"
  using isPacketComplete_vector_take [of dat k rest g] assms by simp

theorem packet_complete_iff_arrived_witness:
  "\<not> fst (isPacketComplete_vector (take 8 (createPacket ''abc'' @ ''xyz'')) 0) \<and>
   fst (isPacketComplete_vector (take 9 (createPacket ''abc'' @ ''xyz'')) 0)"
  using packet_complete_iff_arrived [of "''abc''" 8 "''xyz''" 0]
    packet_complete_iff_arrived [of "''abc''" 9 "''xyz''" 0]
  by (simp add: headerSize_def)

text \<open>
  C18 Whatever bytes a peer sends, fetching from a buffer that was reported complete stays inside the
  buffer, returns exactly the announced number of bytes, and never more than the maximum: the
  32-bit sum in the test does not wrap around.
\<close>

theorem fetch_in_bounds:
  assumes "isPacketComplete_array dat g = (True, n)"
  shows "\<exists>s. fetchData_array dat n = Inr s \<and> s = take (length s) (drop headerSize dat) \<and> length s = unat n \<and>
    unat (n + word_of_nat headerSize) = unat n + headerSize \<and> n \<le> maxPacketSize"
  using assms unat_total_size [of n]
  by (auto simp: isPacketComplete_array_True fetchData_array_def string_at_def headerSize_def)

theorem fetch_in_bounds_witness:
  "(\<exists>s. fetchData_array (createPacket ''abc'') 3 = Inr s \<and> length s = 3)"
proof -
  have c: "isPacketComplete_array (createPacket ''abc'') 0 = (True, 3)"
    using array_framing.complete_frame [of "''abc''" "[]" 0] by simp
  then show ?thesis using fetch_in_bounds [OF c] by auto
qed

text \<open>
  The guard of the vector version of \<open>fetchData\<close> is the wrong way round: for every buffer that
  \<open>isPacketComplete\<close> accepts it returns the empty string, so the data of a packet that was
  collected in a vector is always lost.
\<close>

theorem vector_fetch_always_empty:
  assumes "isPacketComplete_vector dat g = (True, n)"
  shows "fetchData_vector dat n = Inr []"
proof -
  have "6 \<le> length dat" "unat n + 6 \<le> length dat"
    using assms unfolding isPacketComplete_vector_True by blast+
  then show ?thesis by (auto simp: fetchData_vector_def string_at_def headerSize_def)
qed

theorem vector_fetch_always_empty_witness:
  "isPacketComplete_vector (createPacket ''abc'') 0 = (True, 3) \<and>
   fetchData_vector (createPacket ''abc'') 3 = Inr []"
proof -
  have c: "isPacketComplete_vector (createPacket ''abc'') 0 = (True, 3)"
    using vector_framing.complete_frame [of "''abc''" "[]" 0] by simp
  show ?thesis using c vector_fetch_always_empty [OF c] by simp
qed

end
