(* ===== verification/NetSession.thy ===== *)
theory NetSession
  imports Coreproto
begin

text \<open>
  A connection of the server, \<open>SessionImpl\<close> of \<open>lib/netbase.cpp\<close>. Its handlers are run by the
  asio event loop when an operation they started has completed. The operations in progress are
  part of the state: \<open>handshaking\<close>, \<open>reading\<close> and \<open>writing\<close>, the buffers handed to
  \<open>async_write\<close> whose write has not completed, in order; nothing in the type keeps a session from
  starting a write while another one is in progress. An error code is a flag. A successful read stores the received bytes at the
  front of \<open>data_\<close> and leaves the rest of the array as it was. \<open>freed\<close> records \<open>delete this\<close>;
  asio completes the operations of a destroyed socket with an error and calls their handlers,
  which are bound to the deleted object, so an event of a freed session is \<open>Use_after_free\<close>.

  \<open>transmitted\<close> is what was given to \<open>async_write\<close>, in order. The packets go to
  \<open>HandlerManager::handlePacket\<close>, which is the argument \<open>deliver\<close> acting on \<open>'m\<close>. The
  local \<open>pkgSize\<close> is uninitialised: the argument \<open>g\<close>.
\<close>

section \<open>State and operations\<close>

definition max_length :: nat where "max_length = 1024"

record session =
  s_clientId :: u32
  s_data :: bytes
  incBuffer :: bytes
  outBuffer :: bytes
  outBufferProcessing :: bytes
  destroyedFnc :: bool
  handshaking :: bool
  reading :: bool
  writing :: "bytes list"
  transmitted :: "bytes list"
  freed :: bool

definition SessionImpl :: "bytes \<Rightarrow> session" where
  "SessionImpl uninit = \<lparr>s_clientId = - 1, s_data = uninit, incBuffer = [], outBuffer = [],
     outBufferProcessing = [], destroyedFnc = False, handshaking = False, reading = False,
     writing = [], transmitted = [], freed = False\<rparr>"

definition delete_this :: "session \<Rightarrow> session" where
  "delete_this s = s\<lparr>freed := True\<rparr>"

definition async_read_some :: "session \<Rightarrow> session" where
  "async_read_some s = s\<lparr>reading := True\<rparr>"

definition async_write :: "bytes \<Rightarrow> session \<Rightarrow> session" where
  "async_write buf s = s\<lparr>writing := writing s @ [buf], transmitted := transmitted s @ [buf]\<rparr>"

definition session_start :: "session \<Rightarrow> session" where
  "session_start s = s\<lparr>handshaking := True\<rparr>"

definition handleHandshake :: "bool \<Rightarrow> session \<Rightarrow> session" where
  "handleHandshake error s = (if \<not> error then async_read_some s else delete_this s)"

definition session_handlePacket :: "(string \<Rightarrow> u64 \<Rightarrow> 'm \<Rightarrow> 'm res) \<Rightarrow> string \<Rightarrow> session \<Rightarrow> 'm \<Rightarrow> 'm res" where
  "session_handlePacket deliver dat s m = deliver dat (scast (s_clientId s)) m"

definition processRead ::
  "(string \<Rightarrow> u64 \<Rightarrow> 'm \<Rightarrow> 'm res) \<Rightarrow> u32 \<Rightarrow> bool \<Rightarrow> nat \<Rightarrow> session \<times> 'm \<Rightarrow> (session \<times> 'm) res" where
  "processRead deliver g error bytes_transferred sm =
     (case sm of (s, m) \<Rightarrow>
      if \<not> error then
        res_bind
          (if incBuffer s = [] then
             (case isPacketComplete_array (s_data s) g of
                (True, pkgSize) \<Rightarrow>
                  res_bind (fetchData_array (s_data s) pkgSize) (\<lambda>dat.
                  res_bind (session_handlePacket deliver dat s m) (\<lambda>m'. Inr (s, m')))
              | (False, _) \<Rightarrow>
                  if isPacketStart (s_data s)
                  then Inr (s\<lparr>incBuffer := incBuffer s @ take bytes_transferred (s_data s)\<rparr>, m)
                  else Inr (s, m))
           else
             (let s = s\<lparr>incBuffer := incBuffer s @ take bytes_transferred (s_data s)\<rparr>
              in case isPacketComplete_vector (incBuffer s) g of
                   (True, pkgSize) \<Rightarrow>
                     res_bind (fetchData_vector (incBuffer s) pkgSize) (\<lambda>dat.
                     res_bind (session_handlePacket deliver dat s m) (\<lambda>m'.
                       Inr (s\<lparr>incBuffer := []\<rparr>, m')))
                 | (False, pkgSize) \<Rightarrow>
                     if pkgSize > maxPacketSize then Inr (s\<lparr>incBuffer := []\<rparr>, m) else Inr (s, m)))
          (\<lambda>(s', m'). Inr (async_read_some s', m'))
      else Inr (delete_this s, m))"

definition handleWrite :: "bool \<Rightarrow> session \<Rightarrow> session" where
  "handleWrite error s =
     (if \<not> error then
        let s = s\<lparr>outBufferProcessing := outBuffer s, outBuffer := outBufferProcessing s\<rparr>
        in if outBufferProcessing s \<noteq> [] then async_write (outBufferProcessing s) s else s
      else delete_this s)"

definition session_sendData :: "bytes \<Rightarrow> session \<Rightarrow> session" where
  "session_sendData dat s =
     (let s = s\<lparr>outBuffer := outBuffer s @ dat\<rparr>
      in if outBufferProcessing s = [] then handleWrite False s else s)"

section \<open>Events\<close>

text \<open>What can happen to a session: an operation completes, or the server sends.\<close>

datatype session_event =
    Handshake_done bool
  | Read_done u32 bytes
  | Read_failed
  | Write_done bool
  | Send_data bytes

fun session_step :: "(string \<Rightarrow> u64 \<Rightarrow> 'm \<Rightarrow> 'm res) \<Rightarrow> session_event \<Rightarrow> session \<times> 'm \<Rightarrow> (session \<times> 'm) res" where
  "session_step deliver (Handshake_done error) (s, m) =
     (if freed s then Inl Use_after_free
      else Inr (handleHandshake error (s\<lparr>handshaking := False\<rparr>), m))"
| "session_step deliver (Read_done g received) (s, m) =
     (if freed s then Inl Use_after_free
      else processRead deliver g False (length received)
             (s\<lparr>reading := False, s_data := received @ drop (length received) (s_data s)\<rparr>, m))"
| "session_step deliver Read_failed (s, m) =
     (if freed s then Inl Use_after_free
      else processRead deliver 0 True 0 (s\<lparr>reading := False\<rparr>, m))"
| "session_step deliver (Write_done error) (s, m) =
     (if freed s then Inl Use_after_free else Inr (handleWrite error (s\<lparr>writing := tl (writing s)\<rparr>), m))"
| "session_step deliver (Send_data dat) (s, m) =
     (if freed s then Inl Use_after_free else Inr (session_sendData dat s, m))"

text \<open>Which events are possible: only started operations complete, and a read fits the array.\<close>

fun enabled :: "session_event \<Rightarrow> session \<Rightarrow> bool" where
  "enabled (Handshake_done error) s = handshaking s"
| "enabled (Read_done g received) s = (reading s \<and> received \<noteq> [] \<and> length received \<le> max_length)"
| "enabled Read_failed s = reading s"
| "enabled (Write_done error) s = (writing s \<noteq> [])"
| "enabled (Send_data dat) s = (\<not> freed s)"

inductive session_moves ::
  "(string \<Rightarrow> u64 \<Rightarrow> 'm \<Rightarrow> 'm res) \<Rightarrow> session \<times> 'm \<Rightarrow> session \<times> 'm \<Rightarrow> bool" for deliver where
  "enabled e s \<Longrightarrow> session_step deliver e (s, m) = Inr sm' \<Longrightarrow> session_moves deliver (s, m) sm'"

inductive_cases session_movesE: "session_moves deliver sm sm'"

section \<open>Invariant\<close>

definition session_inv :: "session \<Rightarrow> bool" where
  "session_inv s \<longleftrightarrow> length (s_data s) = max_length \<and>
     (\<not> freed s \<longrightarrow>
        writing s = (if outBufferProcessing s = [] then [] else [outBufferProcessing s]) \<and>
        (handshaking s \<longleftrightarrow> \<not> reading s))"

definition session_begin :: "session \<times> 'm \<Rightarrow> bool" where
  "session_begin sm \<longleftrightarrow> (\<exists>uninit. length uninit = max_length \<and> fst sm = session_start (SessionImpl uninit))"

lemmas session_ops = handleHandshake_def handleWrite_def session_sendData_def async_read_some_def
  async_write_def delete_this_def session_start_def SessionImpl_def Let_def

lemma processRead_keeps:
  assumes "processRead deliver g False k (s, m) = Inr (s', m')"
  shows "\<exists>inc. s' = s\<lparr>incBuffer := inc, reading := True\<rparr>"
proof -
  have [simp]: "\<exists>inc. s\<lparr>reading := True\<rparr> = s\<lparr>incBuffer := inc, reading := True\<rparr>"
    by (rule exI [of _ "incBuffer s"]) simp
  show ?thesis
    using assms
    by (auto simp: processRead_def Let_def async_read_some_def split: if_splits prod.splits bool.splits)
qed

lemma processRead_failed: "processRead deliver g True k (s, m) = Inr (delete_this s, m)"
  by (simp add: processRead_def)

lemma session_inv_step:
  assumes "session_inv s" and "enabled e s" and "session_step deliver e (s, m) = Inr (s', m')"
  shows "session_inv s'"
proof (cases e)
  case (Read_done g received)
  then have "processRead deliver g False (length received)
      (s\<lparr>reading := False, s_data := received @ drop (length received) (s_data s)\<rparr>, m) = Inr (s', m')"
    "\<not> freed s"
    using assms(3) by (simp_all split: if_splits)
  from processRead_keeps [OF this(1)] this(2) Read_done assms(1,2) show ?thesis
    by (auto simp: session_inv_def)
next
  case Read_failed
  with assms show ?thesis
    by (auto simp: session_inv_def processRead_failed delete_this_def split: if_splits)
qed (use assms in \<open>auto simp: session_inv_def session_ops split: if_splits\<close>)

interpretation session: invariant_of session_begin "session_moves deliver" "\<lambda>sm. session_inv (fst sm)"
proof
  show "session_begin sm \<Longrightarrow> session_inv (fst sm)" for sm :: "session \<times> 'a"
    by (auto simp: session_begin_def session_inv_def session_ops)
  show "session_inv (fst sm) \<Longrightarrow> session_moves deliver sm sm' \<Longrightarrow> session_inv (fst sm')" for sm sm'
    by (cases sm') (auto elim!: session_movesE dest: session_inv_step)
qed

lemma read_whole_packet_any:
  assumes "\<not> freed s" and "incBuffer s = []" and "length (s_data s) = max_length"
    and "length (createPacket dat @ junk) \<le> max_length"
  shows "session_step deliver (Read_done g (createPacket dat @ junk)) (s, m) =
    res_bind (deliver dat (scast (s_clientId s)) m) (\<lambda>m'.
      Inr (s\<lparr>reading := True,
        s_data := createPacket dat @ junk @ drop (length (createPacket dat @ junk)) (s_data s)\<rparr>, m'))"
proof -
  have ok: "packet_size_ok dat" using assms(4) by (simp add: max_length_def)
  show ?thesis
    using assms(1,2) array_framing.complete_frame [OF ok] array_framing.fetch_frame [OF ok]
    by (cases "deliver dat (scast (s_clientId s)) m")
      (simp_all add: processRead_def session_handlePacket_def async_read_some_def)
qed

lemma read_whole_packet:
  assumes "\<not> freed s" and "incBuffer s = []" and "length (s_data s) = max_length"
    and "length (createPacket dat @ junk) \<le> max_length"
    and "deliver dat (scast (s_clientId s)) m = Inr m'"
  shows "session_step deliver (Read_done g (createPacket dat @ junk)) (s, m) =
    Inr (s\<lparr>reading := True,
      s_data := createPacket dat @ junk @ drop (length (createPacket dat @ junk)) (s_data s)\<rparr>, m')"
  using read_whole_packet_any [OF assms(1-4), of deliver g m] assms(5) by simp

section \<open>Properties\<close>

text \<open>
  In every state a live session can reach, at most one write is in progress, it is in progress
  exactly if \<open>outBufferProcessing_\<close> is not empty, and it writes that buffer, which no other event
  changes before the write completes; and as soon as the handshake is done a read is always in
  progress.
\<close>

theorem session_one_write:
  assumes "session_begin sm0" and "(session_moves deliver)\<^sup>*\<^sup>* sm0 (s, m)" and "\<not> freed s"
  shows "writing s = (if outBufferProcessing s = [] then [] else [outBufferProcessing s]) \<and>
    (reading s \<longleftrightarrow> \<not> handshaking s) \<and>
    (\<forall>e s' m'. enabled e s \<and> session_step deliver e (s, m) = Inr (s', m') \<and> writing s \<noteq> [] \<and>
       (\<forall>error. e \<noteq> Write_done error) \<longrightarrow>
       writing s' = writing s \<and> outBufferProcessing s' = outBufferProcessing s)"
proof -
  have inv: "session_inv s" using session.inv_reachable [OF assms(1,2)] by simp
  have "writing s' = writing s \<and> outBufferProcessing s' = outBufferProcessing s"
    if "enabled e s" "session_step deliver e (s, m) = Inr (s', m')" "writing s \<noteq> []"
      "\<forall>error. e \<noteq> Write_done error" for e s' m'
  proof (cases e)
    case (Read_done g received)
    then show ?thesis using processRead_keeps that(2) by (fastforce split: if_splits)
  next
    case Read_failed
    then show ?thesis using that(2) by (auto simp: processRead_failed delete_this_def split: if_splits)
  qed (use that inv in \<open>auto simp: session_ops session_inv_def split: if_splits\<close>)
  with inv assms(3) show ?thesis by (auto simp: session_inv_def)
qed

definition demo_session :: session where
  "demo_session = session_start (SessionImpl (replicate max_length (CHR 0x00)))"

definition demo_ready :: session where
  "demo_ready = handleHandshake False (demo_session\<lparr>handshaking := False\<rparr>)"

lemma demo_begin: "session_begin (demo_session, m)"
  by (auto simp: session_begin_def demo_session_def intro!: exI [of _ "replicate max_length (CHR 0x00)"])

lemma demo_ready_reachable: "(session_moves deliver)\<^sup>*\<^sup>* (demo_session, m) (demo_ready, m)"
  by (intro r_into_rtranclp session_moves.intros [of "Handshake_done False"])
    (simp_all add: demo_session_def demo_ready_def session_ops)

lemma demo_sent_reachable:
  "(session_moves deliver)\<^sup>*\<^sup>* (demo_session, m) (session_sendData dat demo_ready, m)"
  by (rule rtranclp.rtrancl_into_rtrancl [OF demo_ready_reachable], rule session_moves.intros [of "Send_data dat"])
    (simp_all add: demo_session_def demo_ready_def session_ops)

theorem session_one_write_witness:
  "writing (session_sendData ''ab'' demo_ready) = [''ab''] \<and> reading (session_sendData ''ab'' demo_ready)"
  using session_one_write [OF demo_begin demo_sent_reachable, of "''ab''" "\<lambda>_ _ m. Inr m" "()"]
  by (simp add: demo_session_def demo_ready_def session_ops)

text \<open>
  C31 A packet whose first part arrives alone is not waited for: the length test looks at the size
  of the array instead of the number of bytes received, so the packet is delivered at once,
  with what earlier reads left in the array in place of the bytes that are still to come.
\<close>

theorem partial_packet_delivered_with_stale_bytes:
  assumes "\<not> freed s" and "incBuffer s = []" and "length (s_data s) = max_length"
    and "length (createPacket dat) \<le> max_length" and "headerSize \<le> k" and "k < length (createPacket dat)"
    and "deliver (take (k - headerSize) dat @ take (length (createPacket dat) - k) (drop k (s_data s)))
      (scast (s_clientId s)) m = Inr m'"
  shows "session_step deliver (Read_done g (take k (createPacket dat))) (s, m) =
    Inr (s\<lparr>reading := True, s_data := take k (createPacket dat) @ drop k (s_data s)\<rparr>, m')"
proof -
  let ?d = "take (k - headerSize) dat @ take (length (createPacket dat) - k) (drop k (s_data s))"
  have len: "length ?d = length dat"
    using assms(3-6) by (simp add: headerSize_def)
  have "drop k (s_data s) = take (length (createPacket dat) - k) (drop k (s_data s)) @
      drop (length (createPacket dat)) (s_data s)"
    using assms(6) append_take_drop_id [of "length (createPacket dat) - k" "drop k (s_data s)"] by simp
  then have split: "take k (createPacket dat) @ drop k (s_data s) =
      createPacket ?d @ drop (length (createPacket dat)) (s_data s)"
    unfolding take_createPacket [OF assms(5)] createPacket_eq [of ?d] len by simp
  have ok: "packet_size_ok ?d" using assms(4) len by (simp add: max_length_def)
  show ?thesis
    using assms(1,2,6,7) array_framing.complete_frame [OF ok] array_framing.fetch_frame [OF ok]
    by (simp add: processRead_def session_handlePacket_def async_read_some_def min_def split)
qed

theorem partial_packet_delivered_with_stale_bytes_witness:
  "session_step (\<lambda>dat cid m. Inr (m @ [dat])) (Read_done 0 (take 7 (createPacket ''abc''))) (demo_ready, []) =
   Inr (demo_ready\<lparr>s_data := take 7 (createPacket ''abc'') @ drop 7 (s_data demo_ready)\<rparr>,
     [[CHR ''a'', CHR 0x00, CHR 0x00]])"
  using partial_packet_delivered_with_stale_bytes [of demo_ready "''abc''" 7 "\<lambda>dat cid m. Inr (m @ [dat])" "[]"
      "[[CHR ''a'', CHR 0x00, CHR 0x00]]" 0]
  by (simp add: demo_ready_def demo_session_def session_ops max_length_def headerSize_def numeral_eq_Suc)

lemma large_packet_not_complete:
  assumes "packet_size_ok dat" and "max_length < length (createPacket dat)"
  shows "fst (isPacketComplete_array (take max_length (createPacket dat)) g) = False"
    "isPacketStart (take max_length (createPacket dat))"
proof -
  have len: "length (take max_length (createPacket dat)) = 1024"
    using assms(2) by (simp add: max_length_def)
  note hd = packet_header [of max_length dat "[]", simplified append_Nil2]
  have h: "headerSize \<le> max_length" by (simp add: headerSize_def max_length_def)
  show "isPacketStart (take max_length (createPacket dat))"
    using hd(2,3) [OF h] len by (simp add: isPacketStart_def headerSize_def)
  have n: "load_ntohl (take 4 (drop magicSize (take max_length (createPacket dat)))) = word_of_nat (length dat)"
    using hd(1) [OF h] by simp
  have "unat (word_of_nat (length dat) :: u32) = length dat"
    using assms(1) by (simp add: unat_packet_size)
  moreover have "1024 < length dat + 6" using assms(2) by (simp add: max_length_def headerSize_def)
  ultimately have "\<not> (n = word_of_nat (length dat) \<and> unat n + 6 \<le> 1024)" for n :: u32
    by auto
  then have "isPacketComplete_array (take max_length (createPacket dat)) g \<noteq> (True, n)" for n
    unfolding isPacketComplete_array_True len using n by (simp only: magicSize_def) blast
  then show "fst (isPacketComplete_array (take max_length (createPacket dat)) g) = False"
    by (metis prod.collapse)
qed

lemma processRead_start:
  assumes "incBuffer s = []" and "fst (isPacketComplete_array (s_data s) g) = False" and "isPacketStart (s_data s)"
  shows "processRead deliver g False k (s, m) = Inr (s\<lparr>incBuffer := take k (s_data s), reading := True\<rparr>, m)"
  using assms
  by (cases "isPacketComplete_array (s_data s) g") (auto simp: processRead_def async_read_some_def)

lemma processRead_reassembled:
  assumes "incBuffer s \<noteq> []" and "isPacketComplete_vector (incBuffer s @ take k (s_data s)) g = (True, n)"
  shows "processRead deliver g False k (s, m) =
    res_bind (deliver [] (scast (s_clientId s)) m) (\<lambda>m'. Inr (s\<lparr>incBuffer := [], reading := True\<rparr>, m'))"
proof -
  have "6 \<le> length (incBuffer s @ take k (s_data s))" "unat n + 6 \<le> length (incBuffer s @ take k (s_data s))"
    using assms(2) unfolding isPacketComplete_vector_True by blast+
  then have "fetchData_vector (incBuffer s @ take k (s_data s)) n = Inr []"
    by (auto simp: fetchData_vector_def string_at_def headerSize_def)
  with assms show ?thesis
    by (cases "deliver [] (scast (s_clientId s)) m")
      (simp_all add: processRead_def session_handlePacket_def async_read_some_def Let_def)
qed

text \<open>The two reads of a packet that is larger than the array: what they give, whatever the manager does.\<close>

lemma large_packet_reads:
  assumes "\<not> freed s" and "incBuffer s = []" and "length (s_data s) = max_length"
    and "max_length < length (createPacket dat)" and "length (createPacket dat) \<le> 2 * max_length"
  shows "\<exists>s1 s2. session_step deliver (Read_done g (take max_length (createPacket dat))) (s, m) = Inr (s1, m) \<and>
    incBuffer s1 = take max_length (createPacket dat) \<and> reading s1 \<and> \<not> freed s1 \<and>
    session_step deliver (Read_done g (drop max_length (createPacket dat))) (s1, m) =
      res_bind (deliver [] (scast (s_clientId s)) m) (\<lambda>m'. Inr (s2, m')) \<and>
    incBuffer s2 = []"
proof -
  let ?a = "take max_length (createPacket dat)" and ?b = "drop max_length (createPacket dat)"
  let ?s1 = "s\<lparr>s_data := ?a, incBuffer := ?a, reading := True\<rparr>"
  have ok: "packet_size_ok dat" using assms(5) by (simp add: max_length_def)
  have a: "length ?a = max_length" "?a \<noteq> []" using assms(4) by (auto simp: max_length_def createPacket_eq)
  have 1: "session_step deliver (Read_done g ?a) (s, m) = Inr (?s1, m)"
    using assms(1-3) a(1) large_packet_not_complete [OF ok assms(4)]
      processRead_start [of "s\<lparr>reading := False, s_data := ?a\<rparr>" g deliver max_length m]
    by simp
  have "isPacketComplete_vector (?a @ ?b) g = (True, word_of_nat (length dat))"
    using isPacketComplete_vector_frame [OF ok, of "[]" g] by simp
  then have 2: "session_step deliver (Read_done g ?b) (?s1, m) =
      res_bind (deliver [] (scast (s_clientId s)) m)
        (\<lambda>m'. Inr (s\<lparr>s_data := ?b @ drop (length ?b) ?a, incBuffer := [], reading := True\<rparr>, m'))"
    using assms(1) a(2) processRead_reassembled [of "?s1\<lparr>reading := False, s_data := ?b @ drop (length ?b) ?a\<rparr>"
        "length ?b" g "word_of_nat (length dat)" deliver m]
    by simp
  show ?thesis
    by (rule exI [of _ ?s1], rule exI, intro conjI, rule 1, simp, simp, use assms(1) in simp, rule 2, simp)
qed

text \<open>
  A packet that is too large for one read is collected from its parts and then delivered as the
  empty string: all of its data is lost.
\<close>

theorem large_packet_lost:
  assumes "\<not> freed s" and "incBuffer s = []" and "length (s_data s) = max_length"
    and "max_length < length (createPacket dat)" and "length (createPacket dat) \<le> 2 * max_length"
    and "deliver [] (scast (s_clientId s)) m = Inr m'"
  shows "\<exists>s1 s2. session_step deliver (Read_done g (take max_length (createPacket dat))) (s, m) = Inr (s1, m) \<and>
    incBuffer s1 = take max_length (createPacket dat) \<and>
    session_step deliver (Read_done g (drop max_length (createPacket dat))) (s1, m) = Inr (s2, m') \<and>
    incBuffer s2 = []"
proof -
  obtain s1 s2 where "session_step deliver (Read_done g (take max_length (createPacket dat))) (s, m) = Inr (s1, m)"
    "incBuffer s1 = take max_length (createPacket dat)"
    "session_step deliver (Read_done g (drop max_length (createPacket dat))) (s1, m) = Inr (s2, m')"
    "incBuffer s2 = []"
    using large_packet_reads [OF assms(1-5), of deliver g m] unfolding assms(6) res_bind_simps by blast
  then show ?thesis by blast
qed

lemma demo_large:
  "\<not> freed demo_ready" "incBuffer demo_ready = []" "length (s_data demo_ready) = max_length"
  "max_length < length (createPacket (replicate 1100 CHR ''x''))"
  "length (createPacket (replicate 1100 CHR ''x'')) \<le> 2 * max_length"
  "(\<lambda>dat cid m. Inr (m @ [dat])) [] (scast (s_clientId demo_ready)) [] = Inr [[]]"
  by (simp_all add: demo_ready_def demo_session_def session_ops max_length_def headerSize_def)

theorem large_packet_lost_witness:
  "\<exists>s1 s2. session_step (\<lambda>dat cid m. Inr (m @ [dat])) (Read_done 0 (take max_length (createPacket (replicate 1100 CHR ''x''))))
       (demo_ready, []) = Inr (s1, []) \<and>
     session_step (\<lambda>dat cid m. Inr (m @ [dat])) (Read_done 0 (drop max_length (createPacket (replicate 1100 CHR ''x''))))
       (s1, []) = Inr (s2, [[]])"
  using large_packet_lost [of demo_ready "replicate 1100 CHR ''x''" "\<lambda>dat cid m. Inr (m @ [dat])" "[]" "[[]]" 0]
    demo_large by blast

text \<open>
  Data that was written is written again: the buffer is swapped, but never cleared, so what a write
  has sent comes back into \<open>outBuffer_\<close> and goes out in front of the next message.
\<close>

theorem sent_data_repeated:
  assumes "\<not> freed s" and "outBuffer s = []" and "outBufferProcessing s = []" and "a \<noteq> []"
  shows "\<exists>s1 s2 s3. session_step deliver (Send_data a) (s, m) = Inr (s1, m) \<and> transmitted s1 = transmitted s @ [a] \<and>
    session_step deliver (Write_done False) (s1, m) = Inr (s2, m) \<and> transmitted s2 = transmitted s1 \<and>
    session_step deliver (Send_data b) (s2, m) = Inr (s3, m) \<and> transmitted s3 = transmitted s @ [a, a @ b]"
  using assms by (simp add: session_ops)

theorem sent_data_repeated_witness:
  "\<exists>s1 s2 s3. session_step (\<lambda>_ _ m. Inr m) (Send_data ''a'') (demo_ready, ()) = Inr (s1, ()) \<and>
    session_step (\<lambda>_ _ m. Inr m) (Write_done False) (s1, ()) = Inr (s2, ()) \<and>
    session_step (\<lambda>_ _ m. Inr m) (Send_data ''b'') (s2, ()) = Inr (s3, ()) \<and>
    transmitted s3 = [''a'', ''ab'']"
  using sent_data_repeated [of demo_ready "''a''" "\<lambda>_ _ m. Inr m" "()" "''b''"]
  by (auto simp: demo_ready_def demo_session_def session_ops)

definition write_completes :: "session \<Rightarrow> session" where
  "write_completes s = handleWrite False (s\<lparr>writing := tl (writing s)\<rparr>)"

lemma write_completes_swaps:
  assumes "outBuffer s \<noteq> []"
  shows "outBuffer (write_completes s) = outBufferProcessing s"
    "outBufferProcessing (write_completes s) = outBuffer s"
    "transmitted (write_completes s) = transmitted s @ [outBuffer s]"
  using assms by (simp_all add: write_completes_def session_ops)

text \<open>
  C30 Two messages of which the second is sent while the first is being written are written again
  and again, in turns, for as long as writing succeeds: the connection never becomes idle.
\<close>

theorem two_messages_alternate_forever:
  assumes "outBufferProcessing s = a" and "outBuffer s = []" and "a \<noteq> []" and "b \<noteq> []"
  shows "transmitted ((write_completes ^^ n) (session_sendData b s)) =
      transmitted s @ map (\<lambda>i. if even i then b else a) [0..<n] \<and>
    outBufferProcessing ((write_completes ^^ n) (session_sendData b s)) = (if even n then a else b)"
proof -
  let ?t = "session_sendData b s"
  have t: "outBuffer ?t = b" "outBufferProcessing ?t = a" "transmitted ?t = transmitted s"
    using assms by (simp_all add: session_sendData_def Let_def)
  have "outBuffer ((write_completes ^^ n) ?t) = (if even n then b else a) \<and>
      outBufferProcessing ((write_completes ^^ n) ?t) = (if even n then a else b) \<and>
      transmitted ((write_completes ^^ n) ?t) = transmitted s @ map (\<lambda>i. if even i then b else a) [0..<n]"
    by (induction n) (use t assms(3,4) in \<open>auto simp: write_completes_swaps\<close>)
  then show ?thesis by simp
qed

theorem two_messages_alternate_forever_witness:
  "transmitted ((write_completes ^^ 4) (session_sendData ''b'' (session_sendData ''a'' demo_ready))) =
   [''a'', ''b'', ''a'', ''b'', ''a'']"
  using two_messages_alternate_forever [of "session_sendData ''a'' demo_ready" "''a''" "''b''" 4]
  by (simp add: demo_ready_def demo_session_def session_ops upt_conv_Cons)

text \<open>
  A session that fails while a read and a write are in progress is deleted twice: the handler of
  the failed read deletes it, and the handler of the aborted write, still bound to it, runs on the
  deleted object.
\<close>

theorem session_deleted_twice:
  assumes "\<not> freed s" and "reading s" and "writing s \<noteq> []"
  shows "\<exists>s'. enabled Read_failed s \<and> session_step deliver Read_failed (s, m) = Inr (s', m) \<and>
    enabled (Write_done True) s' \<and> session_step deliver (Write_done True) (s', m) = Inl Use_after_free"
  using assms by (simp add: processRead_failed delete_this_def)

theorem session_deleted_twice_witness:
  "\<exists>s'. session_step (\<lambda>_ _ m. Inr m) Read_failed (session_sendData ''a'' demo_ready, ()) = Inr (s', ()) \<and>
    session_step (\<lambda>_ _ m. Inr m) (Write_done True) (s', ()) = Inl Use_after_free"
proof -
  have "\<not> freed (session_sendData ''a'' demo_ready)" "reading (session_sendData ''a'' demo_ready)"
    "writing (session_sendData ''a'' demo_ready) \<noteq> []"
    by (simp_all add: demo_ready_def demo_session_def session_ops)
  from session_deleted_twice [OF this, of "\<lambda>_ _ m. Inr m" "()"] show ?thesis by blast
qed

end
