(* ===== verification/NetBase.thy ===== *)
theory NetBase
  imports NetSession Handlers
begin

text \<open>
  The server, \<open>NetBase::Impl\<close> of \<open>lib/netbase.cpp\<close>: it accepts connections, numbers them, keeps the
  list of open sessions and finds the session an answer goes to. A \<open>SessionImpl*\<close> is an address in
  \<open>n_heap\<close>; \<open>n_fresh\<close> is the next address \<open>new\<close> returns. \<open>n_clientId\<close> is the static
  counter of \<open>handleAccept\<close>; incrementing it beyond the range of \<open>int\<close> is
  \<open>Signed_overflow\<close>. The TLS context, the certificate files and \<open>io_context\<close> are not modelled.
\<close>

section \<open>State and operations\<close>

record 'm net_impl =
  n_sessions :: "nat list"
  n_heap :: "nat \<Rightarrow> session option"
  n_clientId :: u32
  n_accepting :: "nat option"
  n_fresh :: nat
  n_manager :: 'm

definition net_Impl :: "'m \<Rightarrow> 'm net_impl" where
  "net_Impl m = \<lparr>n_sessions = [], n_heap = (\<lambda>_. None), n_clientId = 0, n_accepting = None, n_fresh = 0,
     n_manager = m\<rparr>"

definition start_accept :: "bytes \<Rightarrow> 'm net_impl \<Rightarrow> 'm net_impl" where
  "start_accept uninit i =
     (let newSession = n_fresh i
      in i\<lparr>n_heap := (n_heap i)(newSession \<mapsto> SessionImpl uninit), n_accepting := Some newSession,
           n_fresh := newSession + 1\<rparr>)"

definition clientSessionDestroyed :: "nat \<Rightarrow> 'm net_impl \<Rightarrow> 'm net_impl" where
  "clientSessionDestroyed p i = i\<lparr>n_sessions := remove1 p (n_sessions i)\<rparr>"

text \<open>The destructor of a session reports to the server if the server asked for it.\<close>

definition SessionImpl_destroy :: "nat \<Rightarrow> session \<Rightarrow> 'm net_impl \<Rightarrow> 'm net_impl" where
  "SessionImpl_destroy p s i = (if destroyedFnc s then clientSessionDestroyed p i else i)"

definition handleAccept :: "bytes \<Rightarrow> nat \<Rightarrow> bool \<Rightarrow> 'm net_impl \<Rightarrow> 'm net_impl res" where
  "handleAccept uninit newSession error i =
     (case n_heap i newSession of
        None \<Rightarrow> Inl Use_after_free
      | Some s \<Rightarrow>
          if \<not> error then
            if n_clientId i = 0x7FFFFFFF then Inl Signed_overflow
            else
              let s = s\<lparr>s_clientId := n_clientId i, destroyedFnc := True\<rparr>;
                  i = i\<lparr>n_clientId := n_clientId i + 1, n_sessions := n_sessions i @ [newSession],
                        n_heap := (n_heap i)(newSession \<mapsto> session_start s)\<rparr>
              in Inr (start_accept uninit i)
          else
            let i = SessionImpl_destroy newSession s (i\<lparr>n_heap := (n_heap i)(newSession \<mapsto> delete_this s)\<rparr>)
            in Inr (start_accept uninit i))"

text \<open>The callback the constructor gives to the handler manager: \<open>std::find_if\<close> looks into each session.\<close>

fun find_session :: "(nat \<Rightarrow> session option) \<Rightarrow> u32 \<Rightarrow> nat list \<Rightarrow> nat option res" where
  "find_session heap clientId [] = Inr None"
| "find_session heap clientId (p # ps) =
     (case heap p of
        None \<Rightarrow> Inl Use_after_free
      | Some s \<Rightarrow>
          if freed s then Inl Use_after_free
          else if s_clientId s = clientId then Inr (Some p)
          else find_session heap clientId ps)"

definition send_callback :: "string \<Rightarrow> u32 \<Rightarrow> 'm net_impl \<Rightarrow> 'm net_impl res" where
  "send_callback dat clientId i =
     res_bind (find_session (n_heap i) clientId (n_sessions i)) (\<lambda>it.
       case it of
         None \<Rightarrow> Inr i
       | Some p \<Rightarrow>
           Inr (i\<lparr>n_heap := (n_heap i)(p \<mapsto> session_sendData (createPacket dat) (the (n_heap i p)))\<rparr>))"

text \<open>An event of one session, with the effects of its destructor if the event deletes it.\<close>

definition session_event_at ::
  "(string \<Rightarrow> u64 \<Rightarrow> 'm \<Rightarrow> 'm res) \<Rightarrow> nat \<Rightarrow> session_event \<Rightarrow> session \<Rightarrow> 'm net_impl \<Rightarrow> 'm net_impl res" where
  "session_event_at deliver p e s i =
     res_bind (session_step deliver e (s, n_manager i)) (\<lambda>(s', m').
       let i = i\<lparr>n_heap := (n_heap i)(p \<mapsto> s'), n_manager := m'\<rparr>
       in Inr (if freed s' then SessionImpl_destroy p s' i else i))"

inductive net_step ::
  "(string \<Rightarrow> u64 \<Rightarrow> 'm \<Rightarrow> 'm res) \<Rightarrow> 'm net_impl \<Rightarrow> 'm net_impl \<Rightarrow> bool" for deliver where
  accept: "n_accepting i = Some p \<Longrightarrow> length uninit = max_length \<Longrightarrow> handleAccept uninit p error i = Inr i' \<Longrightarrow>
    net_step deliver i i'"
| session: "n_heap i p = Some s \<Longrightarrow> enabled e s \<Longrightarrow> e \<notin> range Send_data \<Longrightarrow>
    session_event_at deliver p e s i = Inr i' \<Longrightarrow> net_step deliver i i'"
| send: "send_callback dat clientId i = Inr i' \<Longrightarrow> net_step deliver i i'"

inductive_cases net_stepE: "net_step deliver i i'"

definition net_begin :: "'m net_impl \<Rightarrow> bool" where
  "net_begin i \<longleftrightarrow> (\<exists>uninit m. length uninit = max_length \<and> i = start_accept uninit (net_Impl m))"

section \<open>Invariant\<close>

text \<open>
  The list of sessions has no duplicates and points to live sessions with pairwise different
  numbers, all below the counter; the session that waits for a connection is not in it.
\<close>

definition sessions_ok :: "'m net_impl \<Rightarrow> bool" where
  "sessions_ok i \<longleftrightarrow> distinct (n_sessions i) \<and>
     (\<forall>p\<in>set (n_sessions i). p < n_fresh i \<and>
        (\<exists>s. n_heap i p = Some s \<and> \<not> freed s \<and> s_clientId s < n_clientId i)) \<and>
     (\<forall>p s. n_heap i p = Some s \<longrightarrow> p < n_fresh i \<and> (\<not> freed s \<and> destroyedFnc s \<longrightarrow> p \<in> set (n_sessions i)) \<and>
        (\<not> destroyedFnc s \<longrightarrow> p \<notin> set (n_sessions i) \<and> \<not> handshaking s \<and> \<not> reading s \<and> writing s = [])) \<and>
     (\<forall>p q s t. p \<in> set (n_sessions i) \<longrightarrow> q \<in> set (n_sessions i) \<longrightarrow> n_heap i p = Some s \<longrightarrow>
        n_heap i q = Some t \<longrightarrow> s_clientId s = s_clientId t \<longrightarrow> p = q) \<and>
     n_clientId i \<le> 0x7FFFFFFF"

definition net_inv :: "'m net_impl \<Rightarrow> bool" where
  "net_inv i \<longleftrightarrow> sessions_ok i \<and>
     (\<exists>p s. n_accepting i = Some p \<and> n_heap i p = Some s \<and> \<not> freed s \<and> \<not> destroyedFnc s)"

lemma session_step_keeps:
  assumes "session_step deliver e (s, m) = Inr (s', m')"
  shows "s_clientId s' = s_clientId s" "destroyedFnc s' = destroyedFnc s" "\<not> freed s"
proof -
  have "s_clientId s' = s_clientId s \<and> destroyedFnc s' = destroyedFnc s \<and> \<not> freed s"
  proof (cases e)
    case (Read_done g received)
    then show ?thesis using processRead_keeps assms by (fastforce split: if_splits)
  qed (use assms in \<open>auto simp: session_ops processRead_failed split: if_splits\<close>)
  then show "s_clientId s' = s_clientId s" "destroyedFnc s' = destroyedFnc s" "\<not> freed s" by auto
qed

lemma net_inv_begin: "net_begin i \<Longrightarrow> net_inv i"
  by (auto simp: net_begin_def start_accept_def net_Impl_def net_inv_def sessions_ok_def SessionImpl_def Let_def
      split: if_splits)

text \<open>Changing one session in place, keeping its number and its life.\<close>

lemma net_inv_update:
  assumes "net_inv i" and "n_heap i p = Some s" and "s_clientId s' = s_clientId s"
    and "destroyedFnc s'" and "destroyedFnc s" and "freed s' = freed s"
  shows "net_inv (i\<lparr>n_heap := (n_heap i)(p \<mapsto> s'), n_manager := m\<rparr>)"
  using assms unfolding net_inv_def sessions_ok_def
  by (simp split del: if_split) (intro conjI allI impI ballI; (force split: if_splits)?)

lemma net_inv_delete:
  assumes "net_inv i" and "n_heap i p = Some s" and "destroyedFnc s" and "freed s'" and "destroyedFnc s'"
  shows "net_inv (SessionImpl_destroy p s' (i\<lparr>n_heap := (n_heap i)(p \<mapsto> s'), n_manager := m\<rparr>))"
  using assms unfolding net_inv_def sessions_ok_def SessionImpl_destroy_def clientSessionDestroyed_def
  by (simp split del: if_split) (intro conjI allI impI ballI; (force split: if_splits)?)

lemma find_session_Some:
  "find_session heap c ps = Inr (Some p) \<Longrightarrow> p \<in> set ps \<and> (\<exists>s. heap p = Some s \<and> \<not> freed s \<and> s_clientId s = c)"
  by (induction ps) (auto split: option.splits if_splits)

lemma find_session_total:
  assumes "\<forall>p\<in>set ps. \<exists>s. heap p = Some s \<and> \<not> freed s"
  shows "\<exists>it. find_session heap c ps = Inr it \<and>
    (it = None \<longrightarrow> (\<forall>p\<in>set ps. \<forall>s. heap p = Some s \<longrightarrow> s_clientId s \<noteq> c))"
  using assms by (induction ps) auto

lemma next_id: "c \<le> 0x7FFFFFFF \<Longrightarrow> c \<noteq> 0x7FFFFFFF \<Longrightarrow> c < c + 1 \<and> c + 1 \<le> (0x7FFFFFFF :: u32)"
  by unat_arith auto

lemma less_next_id: "c \<le> 0x7FFFFFFF \<Longrightarrow> x < c \<Longrightarrow> c \<noteq> 0x7FFFFFFF \<Longrightarrow> x < c + (1 :: u32)"
  using next_id [of c] by (auto intro: less_trans)

lemma net_inv_start_accept:
  assumes "sessions_ok i"
  shows "net_inv (start_accept uninit i)"
proof -
  have "n_heap i (n_fresh i) = None" "n_fresh i \<notin> set (n_sessions i)"
    using assms unfolding sessions_ok_def by (meson less_irrefl not_None_eq, blast)
  with assms show ?thesis
    unfolding net_inv_def sessions_ok_def start_accept_def Let_def
    by (simp split del: if_split) (intro conjI allI impI ballI; (force simp: SessionImpl_def split: if_splits)?)
qed

lemma net_inv_handleAccept:
  assumes "net_inv i" and "n_accepting i = Some p" and "handleAccept uninit p error i = Inr i'"
  shows "net_inv i'"
proof -
  obtain s where s: "n_heap i p = Some s" "\<not> freed s" "\<not> destroyedFnc s" "p \<notin> set (n_sessions i)" "p < n_fresh i"
    using assms(1,2) unfolding net_inv_def sessions_ok_def by fastforce
  show ?thesis
  proof (cases error)
    case True
    then have "i' = start_accept uninit (i\<lparr>n_heap := (n_heap i)(p \<mapsto> delete_this s)\<rparr>)"
      using assms(3) s by (simp add: handleAccept_def SessionImpl_destroy_def delete_this_def)
    moreover have "sessions_ok (i\<lparr>n_heap := (n_heap i)(p \<mapsto> delete_this s)\<rparr>)"
      using assms(1) s unfolding net_inv_def sessions_ok_def by (auto simp: delete_this_def)
    ultimately show ?thesis by (simp add: net_inv_start_accept)
  next
    case False
    then have c: "n_clientId i \<noteq> 0x7FFFFFFF"
      using assms(3) s by (auto simp: handleAccept_def)
    then have "i' = start_accept uninit (i\<lparr>n_clientId := n_clientId i + 1, n_sessions := n_sessions i @ [p],
        n_heap := (n_heap i)(p \<mapsto> session_start (s\<lparr>s_clientId := n_clientId i, destroyedFnc := True\<rparr>))\<rparr>)"
      using False assms(3) s by (simp add: handleAccept_def)
    moreover have "sessions_ok (i\<lparr>n_clientId := n_clientId i + 1, n_sessions := n_sessions i @ [p],
        n_heap := (n_heap i)(p \<mapsto> session_start (s\<lparr>s_clientId := n_clientId i, destroyedFnc := True\<rparr>))\<rparr>)"
      using assms(1) s next_id [OF _ c] less_next_id [OF _ _ c] unfolding net_inv_def sessions_ok_def
      by (auto simp: session_start_def split: if_splits)
    ultimately show ?thesis by (simp add: net_inv_start_accept)
  qed
qed

lemma net_inv_accepted:
  assumes "net_inv i" and "n_heap i p = Some s" and "enabled e s" and "e \<notin> range Send_data"
  shows "destroyedFnc s"
proof (rule ccontr)
  assume "\<not> destroyedFnc s"
  with assms(1,2) have "\<not> handshaking s \<and> \<not> reading s \<and> writing s = []"
    by (auto simp: net_inv_def sessions_ok_def)
  with assms(3,4) show False by (cases e) auto
qed

lemma net_inv_session_event:
  assumes "net_inv i" and "n_heap i p = Some s" and "enabled e s" and "e \<notin> range Send_data"
    and "session_event_at deliver p e s i = Inr i'"
  shows "net_inv i'"
proof -
  obtain s' m' where step: "session_step deliver e (s, n_manager i) = Inr (s', m')"
    and i': "i' = (let j = i\<lparr>n_heap := (n_heap i)(p \<mapsto> s'), n_manager := m'\<rparr>
      in if freed s' then SessionImpl_destroy p s' j else j)"
    using assms(5) by (auto simp: session_event_at_def Let_def)
  note keeps = session_step_keeps [OF step]
  have d: "destroyedFnc s" by (rule net_inv_accepted [OF assms(1-4)])
  show ?thesis
    using net_inv_update [OF assms(1,2) keeps(1)] net_inv_delete [OF assms(1,2) d, of s'] d keeps(2,3) i'
    by (cases "freed s'") (simp_all add: Let_def)
qed

lemma session_sendData_keeps:
  "s_clientId (session_sendData dat s) = s_clientId s" "destroyedFnc (session_sendData dat s) = destroyedFnc s"
  "freed (session_sendData dat s) = freed s"
  by (simp_all add: session_ops)

lemma net_inv_send_callback:
  assumes "net_inv i" and "send_callback dat c i = Inr i'"
  shows "net_inv i'"
proof -
  from assms(2) obtain it where it: "find_session (n_heap i) c (n_sessions i) = Inr it"
    by (auto simp: send_callback_def)
  show ?thesis
  proof (cases it)
    case None
    with assms it show ?thesis by (simp add: send_callback_def)
  next
    case (Some p)
    with find_session_Some [of "n_heap i" c "n_sessions i" p] it obtain s where
      s: "p \<in> set (n_sessions i)" "n_heap i p = Some s" by auto
    with assms(1) have "destroyedFnc s" by (auto simp: net_inv_def sessions_ok_def)
    with net_inv_update [OF assms(1) s(2), of "session_sendData (createPacket dat) s" "n_manager i"] s assms(2) it Some
    show ?thesis by (cases i) (simp add: send_callback_def session_sendData_keeps)
  qed
qed

lemma net_inv_same_id:
  assumes "net_inv i" and "p \<in> set (n_sessions i)" and "q \<in> set (n_sessions i)"
    and "n_heap i p = Some s" and "n_heap i q = Some t" and "s_clientId s = s_clientId t"
  shows "p = q"
  using assms unfolding net_inv_def sessions_ok_def by (elim conjE) blast

lemma net_inv_live: "net_inv i \<Longrightarrow> p \<in> set (n_sessions i) \<Longrightarrow> \<exists>s. n_heap i p = Some s \<and> \<not> freed s"
  unfolding net_inv_def sessions_ok_def by blast

interpretation net: invariant_of net_begin "net_step deliver" net_inv
  by unfold_locales
    (auto simp: net_inv_begin elim!: net_stepE
      intro: net_inv_handleAccept net_inv_session_event net_inv_send_callback)

section \<open>Properties\<close>

text \<open>
  C13 The server's list of sessions is exact in every reachable state: it has no duplicates, it holds
  precisely the accepted sessions that are not deleted, their client numbers are pairwise
  different, and a session is waiting for the next connection.
\<close>

theorem session_list_exact:
  assumes "net_begin i0" and "(net_step deliver)\<^sup>*\<^sup>* i0 i"
  shows "distinct (n_sessions i) \<and>
    (\<forall>p. p \<in> set (n_sessions i) \<longleftrightarrow> (\<exists>s. n_heap i p = Some s \<and> \<not> freed s \<and> destroyedFnc s)) \<and>
    inj_on (\<lambda>p. s_clientId (the (n_heap i p))) (set (n_sessions i)) \<and>
    (\<exists>p s. n_accepting i = Some p \<and> p \<notin> set (n_sessions i) \<and> n_heap i p = Some s \<and> \<not> freed s)"
proof -
  have inv: "net_inv i" by (rule net.inv_reachable [OF assms])
  have "inj_on (\<lambda>p. s_clientId (the (n_heap i p))) (set (n_sessions i))"
    using net_inv_live [OF inv] net_inv_same_id [OF inv] by (intro inj_onI) (metis option.sel)
  moreover have "distinct (n_sessions i)"
    using inv unfolding net_inv_def sessions_ok_def by blast
  moreover have "p \<in> set (n_sessions i) \<longleftrightarrow> (\<exists>s. n_heap i p = Some s \<and> \<not> freed s \<and> destroyedFnc s)" for p
    using inv unfolding net_inv_def sessions_ok_def by metis
  moreover have "\<exists>p s. n_accepting i = Some p \<and> p \<notin> set (n_sessions i) \<and> n_heap i p = Some s \<and> \<not> freed s"
    using inv unfolding net_inv_def sessions_ok_def by metis
  ultimately show ?thesis by blast
qed

definition demo_net0 :: "unit net_impl" where
  "demo_net0 = start_accept (replicate max_length (CHR 0x00)) (net_Impl ())"

definition demo_net1 :: "unit net_impl" where
  "demo_net1 = projr (handleAccept (replicate max_length (CHR 0x00)) 0 False demo_net0)"

lemmas demo_net_defs = demo_net0_def demo_net1_def start_accept_def net_Impl_def handleAccept_def Let_def

lemma demo_net_reachable: "net_begin demo_net0" "(net_step deliver)\<^sup>*\<^sup>* demo_net0 demo_net1"
proof -
  show "net_begin demo_net0"
    unfolding net_begin_def demo_net0_def by (intro exI conjI, rule length_replicate, rule refl)
  have "n_accepting demo_net0 = Some 0"
    "handleAccept (replicate max_length (CHR 0x00)) 0 False demo_net0 = Inr demo_net1"
    by (simp_all add: demo_net_defs)
  then have "net_step deliver demo_net0 demo_net1"
    by (rule net_step.accept [OF _ length_replicate])
  then show "(net_step deliver)\<^sup>*\<^sup>* demo_net0 demo_net1" by (rule r_into_rtranclp)
qed

lemma demo_net1_session:
  "n_sessions demo_net1 = [0]"
  "n_heap demo_net1 0 = Some (session_start ((SessionImpl (replicate max_length (CHR 0x00)))\<lparr>s_clientId := 0, destroyedFnc := True\<rparr>))"
  by (simp_all add: demo_net_defs)

theorem session_list_exact_witness:
  "distinct (n_sessions demo_net1) \<and> (\<exists>s. n_heap demo_net1 0 = Some s \<and> \<not> freed s \<and> destroyedFnc s)"
  using session_list_exact [OF demo_net_reachable] demo_net1_session(1) by auto

text \<open>
  C14 An answer goes to the right client: in every reachable state the send callback frames the data
  and gives it to the one session with that number, and to no other; for a number no open session
  has it does nothing. It never touches a deleted session.
\<close>

theorem send_reaches_client:
  assumes "net_begin i0" and "(net_step deliver)\<^sup>*\<^sup>* i0 i"
  shows "(\<forall>p\<in>set (n_sessions i). \<forall>s. n_heap i p = Some s \<longrightarrow>
      send_callback dat (s_clientId s) i =
        Inr (i\<lparr>n_heap := (n_heap i)(p \<mapsto> session_sendData (createPacket dat) s)\<rparr>)) \<and>
    (\<forall>c. (\<forall>p\<in>set (n_sessions i). \<forall>s. n_heap i p = Some s \<longrightarrow> s_clientId s \<noteq> c) \<longrightarrow>
      send_callback dat c i = Inr i)"
proof -
  have inv: "net_inv i" by (rule net.inv_reachable [OF assms])
  have live: "\<forall>p\<in>set (n_sessions i). \<exists>s. n_heap i p = Some s \<and> \<not> freed s"
    using net_inv_live [OF inv] by blast
  have "send_callback dat (s_clientId s) i =
        Inr (i\<lparr>n_heap := (n_heap i)(p \<mapsto> session_sendData (createPacket dat) s)\<rparr>)"
    if p: "p \<in> set (n_sessions i)" "n_heap i p = Some s" for p s
  proof -
    obtain it where it: "find_session (n_heap i) (s_clientId s) (n_sessions i) = Inr it" "it \<noteq> None"
      using find_session_total [OF live, of "s_clientId s"] p by blast
    then obtain q where q: "it = Some q" by blast
    with find_session_Some it(1) p net_inv_same_id [OF inv] have "q = p" by metis
    with it q p(2) show ?thesis by (simp add: send_callback_def)
  qed
  moreover have "send_callback dat c i = Inr i"
    if "\<forall>p\<in>set (n_sessions i). \<forall>s. n_heap i p = Some s \<longrightarrow> s_clientId s \<noteq> c" for c
  proof -
    obtain it where it: "find_session (n_heap i) c (n_sessions i) = Inr it"
      using find_session_total [OF live, of c] by blast
    with find_session_Some that have "it = None" by (cases it) fastforce+
    with it show ?thesis by (simp add: send_callback_def)
  qed
  ultimately show ?thesis by blast
qed

theorem send_reaches_client_witness:
  "\<exists>i. send_callback ''x'' 0 demo_net1 = Inr i \<and> send_callback ''x'' 9 demo_net1 = Inr demo_net1 \<and>
     transmitted (the (n_heap i 0)) = [createPacket ''x'']"
  using send_reaches_client [OF demo_net_reachable, of "''x''"] demo_net1_session
  by (simp add: session_ops createPacket_eq)

end
