(* ===== verification/NetServer.thy ===== *)
theory NetServer
  imports NetBase
begin

text \<open>
  The server as its user sees it, \<open>NetBase\<close> of \<open>lib/netbase.h\<close> and \<open>lib/netbase.cpp\<close>: created with
  a port and a directory of certificates, given its handlers, started and stopped. Its
  \<open>io_context\<close> runs the handlers of the operations that complete, one at a time; which of them
  complete, and with what result, is the list of events \<open>start\<close> is given. An exception of a
  handler leaves \<open>run\<close>, and \<open>start\<close> with it. The acceptor and the TLS context are given by whether
  opening the port and loading each file succeeds.
\<close>

section \<open>State and operations\<close>

type_synonym ('cb, 's) server_impl = "('cb, 's) HandlerManager net_impl"

record ('cb, 's) net_base =
  nb_impl :: "('cb, 's) server_impl"
  nb_stopped :: bool

definition NetBase_new ::
  "bool \<Rightarrow> (string \<Rightarrow> bool) \<Rightarrow> (string \<Rightarrow> bool) \<Rightarrow> (string \<Rightarrow> bool) \<Rightarrow> string \<Rightarrow> 'cb \<Rightarrow>
   (nat \<Rightarrow> ('cb, 's) HandlerBase option) \<Rightarrow> ('cb, 's) net_base res" where
  "NetBase_new port_open use_certificate_chain_file use_private_key_file use_tmp_dh_file certificateDir cb heap =
     (if \<not> port_open then Inl System_error
      else if \<not> use_certificate_chain_file (certificateDir @ ''/server.pem'') then Inl System_error
      else if \<not> use_private_key_file (certificateDir @ ''/server.pem'') then Inl System_error
      else if \<not> use_tmp_dh_file (certificateDir @ ''/dh2048.pem'') then Inl System_error
      else Inr \<lparr>nb_impl = net_Impl (setSendCallback (Some cb) (HandlerManager_new heap)), nb_stopped = False\<rparr>)"

definition NetBase_registerHandler :: "nat option \<Rightarrow> ('cb, 's) net_base \<Rightarrow> ('cb, 's) net_base res" where
  "NetBase_registerHandler handlerBase nb =
     res_bind (registerHandler handlerBase (n_manager (nb_impl nb))) (\<lambda>m.
       Inr (nb\<lparr>nb_impl := (nb_impl nb)\<lparr>n_manager := m\<rparr>\<rparr>))"

definition NetBase_stop :: "('cb, 's) net_base \<Rightarrow> ('cb, 's) net_base" where
  "NetBase_stop nb = nb\<lparr>nb_stopped := True\<rparr>"

text \<open>
  An event of the \<open>io_context\<close>: the pending accept completes (with what is in the memory of the next
  session), an operation of a session completes, or another thread calls \<open>stop\<close>. An operation
  that is not in progress does not complete.
\<close>

datatype io_event =
    Accept_done bytes bool
  | Session_event nat session_event
  | Stop_called

definition accept_done :: "bytes \<Rightarrow> bool \<Rightarrow> ('cb, 's) server_impl \<Rightarrow> ('cb, 's) server_impl res" where
  "accept_done uninit error i =
     (case n_accepting i of
        None \<Rightarrow> Inr i
      | Some p \<Rightarrow> if length uninit = max_length then handleAccept uninit p error i else Inr i)"

definition completed ::
  "thread_id \<Rightarrow> u64 \<Rightarrow> nat \<Rightarrow> session_event \<Rightarrow> ('cb, 's) server_impl \<Rightarrow> ('cb, 's) server_impl res" where
  "completed me uninit p e i =
     (case n_heap i p of
        None \<Rightarrow> Inr i
      | Some s \<Rightarrow>
          if enabled e s \<and> (case e of Send_data _ \<Rightarrow> False | _ \<Rightarrow> True)
          then session_event_at (handlePacket me uninit) p e s i else Inr i)"

fun io_handle :: "thread_id \<Rightarrow> u64 \<Rightarrow> io_event \<Rightarrow> ('cb, 's) net_base \<Rightarrow> ('cb, 's) net_base res" where
  "io_handle me uninit (Accept_done mem error) nb =
     res_bind (accept_done mem error (nb_impl nb)) (\<lambda>i. Inr (nb\<lparr>nb_impl := i\<rparr>))"
| "io_handle me uninit (Session_event p e) nb =
     res_bind (completed me uninit p e (nb_impl nb)) (\<lambda>i. Inr (nb\<lparr>nb_impl := i\<rparr>))"
| "io_handle me uninit Stop_called nb = Inr (NetBase_stop nb)"

text \<open>\<open>io_context::run\<close>: until it is stopped, the handlers run in the order of the events.\<close>

fun io_run :: "thread_id \<Rightarrow> u64 \<Rightarrow> io_event list \<Rightarrow> ('cb, 's) net_base \<Rightarrow> ('cb, 's) net_base res" where
  "io_run me uninit [] nb = Inr nb"
| "io_run me uninit (e # es) nb =
     (if nb_stopped nb then Inr nb
      else res_bind (io_handle me uninit e nb) (io_run me uninit es))"

definition NetBase_start ::
  "thread_id \<Rightarrow> u64 \<Rightarrow> bytes \<Rightarrow> io_event list \<Rightarrow> ('cb, 's) net_base \<Rightarrow> ('cb, 's) net_base res" where
  "NetBase_start me uninit mem es nb =
     io_run me uninit es (nb\<lparr>nb_impl := start_accept mem (nb_impl nb)\<rparr>)"

text \<open>
  The destructor deletes the implementation: the acceptor, the manager and the list go, and the
  \<open>io_context\<close> drops the operations in progress without running their handlers. The sessions are
  held by plain pointers and stay behind.
\<close>

definition drop_operations :: "session \<Rightarrow> session" where
  "drop_operations s = s\<lparr>handshaking := False, reading := False, writing := []\<rparr>"

definition NetBase_destroy :: "('cb, 's) net_base \<Rightarrow> nat \<Rightarrow> session option" where
  "NetBase_destroy nb = (\<lambda>p. map_option drop_operations (n_heap (nb_impl nb) p))"

section \<open>The running server\<close>

text \<open>Each event is a step of \<open>NetBase::Impl\<close>, or none.\<close>

lemma io_handle_steps:
  assumes "io_handle me uninit e nb = Inr nb'"
  shows "(net_step (handlePacket me uninit))\<^sup>*\<^sup>* (nb_impl nb) (nb_impl nb')"
proof (cases e)
  case (Accept_done mem error)
  with assms show ?thesis
    by (fastforce simp: accept_done_def split: option.splits if_splits intro: net_step.accept)
next
  case (Session_event p se)
  show ?thesis
  proof (cases "\<exists>s. n_heap (nb_impl nb) p = Some s \<and> enabled se s \<and> se \<notin> range Send_data")
    case True
    then obtain s where s: "n_heap (nb_impl nb) p = Some s" "enabled se s" "se \<notin> range Send_data" by blast
    with assms Session_event have "session_event_at (handlePacket me uninit) p se s (nb_impl nb) = Inr (nb_impl nb')"
      by (cases se) (auto simp: completed_def)
    with s show ?thesis by (blast intro: net_step.session)
  next
    case False
    with assms Session_event show ?thesis
      by (cases se) (auto simp: completed_def split: option.splits)
  qed
qed (use assms in \<open>auto simp: NetBase_stop_def\<close>)

lemma io_run_steps:
  "io_run me uninit es nb = Inr nb' \<Longrightarrow> (net_step (handlePacket me uninit))\<^sup>*\<^sup>* (nb_impl nb) (nb_impl nb')"
proof (induction me uninit es nb rule: io_run.induct)
  case (2 me uninit e es nb)
  then show ?case
    by (cases "nb_stopped nb") (auto dest: io_handle_steps intro: rtranclp_trans)
qed simp

lemma io_run_append:
  assumes "io_run me uninit es nb = Inr nb'" and "\<not> nb_stopped nb'"
  shows "io_run me uninit (es @ es') nb = io_run me uninit es' nb'"
  using assms
proof (induction me uninit es nb rule: io_run.induct)
  case (2 me uninit e es nb)
  then show ?case by (cases "nb_stopped nb") auto
qed simp

text \<open>The session that waits for a connection is untouched.\<close>

definition accepting_fresh :: "'m net_impl \<Rightarrow> bool" where
  "accepting_fresh i \<longleftrightarrow>
     (\<exists>p mem. n_accepting i = Some p \<and> n_heap i p = Some (SessionImpl mem) \<and> length mem = max_length)"

lemma accepting_fresh_start_accept: "length mem = max_length \<Longrightarrow> accepting_fresh (start_accept mem i)"
  by (auto simp: accepting_fresh_def start_accept_def Let_def)

lemma accepting_fresh_step:
  assumes "net_inv i" and "accepting_fresh i" and "net_step deliver i i'"
  shows "accepting_fresh i'"
proof -
  obtain p mem where p: "n_accepting i = Some p" "n_heap i p = Some (SessionImpl mem)" "length mem = max_length"
    using assms(2) by (auto simp: accepting_fresh_def)
  have outside: "p \<notin> set (n_sessions i)"
    using assms(1) p(2) by (auto simp: net_inv_def sessions_ok_def SessionImpl_def)
  show ?thesis
    using assms(3)
  proof cases
    case (accept q mem' error)
    then show ?thesis
      by (auto simp: handleAccept_def Let_def accepting_fresh_start_accept split: option.splits if_splits)
  next
    case (session q s e)
    then have "q \<noteq> p" using p(2) by (cases e) (auto simp: SessionImpl_def)
    with session(4) p show ?thesis
      by (auto simp: accepting_fresh_def session_event_at_def SessionImpl_destroy_def clientSessionDestroyed_def
          Let_def split: if_splits)
  next
    case (send dat c)
    then have "n_accepting i' = n_accepting i \<and> n_heap i' p = n_heap i p"
      using outside find_session_Some [of "n_heap i" c "n_sessions i"]
      by (auto simp: send_callback_def split: option.splits)
    with p show ?thesis by (auto simp: accepting_fresh_def)
  qed
qed

lemma accepting_fresh_begin: "net_begin i \<Longrightarrow> accepting_fresh i"
  by (auto simp: net_begin_def accepting_fresh_start_accept)

interpretation serving: invariant_of net_begin "net_step deliver" "\<lambda>i. net_inv i \<and> accepting_fresh i"
  by unfold_locales (auto simp: net_inv_begin accepting_fresh_begin net.inv_step intro: accepting_fresh_step)

text \<open>Every session that was accepted keeps the invariant of a single session.\<close>

definition accepted_ok :: "'m net_impl \<Rightarrow> bool" where
  "accepted_ok i \<longleftrightarrow> (\<forall>p s. n_heap i p = Some s \<longrightarrow> destroyedFnc s \<longrightarrow> session_inv s)"

lemma accepted_ok_update:
  "accepted_ok i \<Longrightarrow> session_inv s \<Longrightarrow> accepted_ok (i\<lparr>n_heap := (n_heap i)(p \<mapsto> s), n_manager := m\<rparr>)"
  "accepted_ok i \<Longrightarrow> session_inv s \<Longrightarrow> accepted_ok (i\<lparr>n_heap := (n_heap i)(p \<mapsto> s)\<rparr>)"
  by (auto simp: accepted_ok_def)

lemma accepted_ok_destroy [simp]: "accepted_ok (SessionImpl_destroy p s i) = accepted_ok i"
  by (simp add: SessionImpl_destroy_def clientSessionDestroyed_def accepted_ok_def)

lemma accepted_ok_start_accept: "accepted_ok i \<Longrightarrow> accepted_ok (start_accept mem i)"
  by (auto simp: accepted_ok_def start_accept_def Let_def SessionImpl_def)

lemma accepted_ok_handleAccept:
  assumes "accepted_ok i" and "accepting_fresh i" and "n_accepting i = Some p" and "handleAccept mem p error i = Inr i'"
  shows "accepted_ok i'"
proof -
  obtain mem0 where p: "n_heap i p = Some (SessionImpl mem0)" "length mem0 = max_length"
    using assms(2,3) by (auto simp: accepting_fresh_def)
  let ?s = "session_start ((SessionImpl mem0)\<lparr>s_clientId := n_clientId i, destroyedFnc := True\<rparr>)"
  have new: "session_inv ?s" "session_inv (delete_this (SessionImpl mem0))"
    using p(2) by (simp_all add: session_inv_def session_ops)
  show ?thesis
  proof (cases error)
    case True
    have "i' = start_accept mem (SessionImpl_destroy p (SessionImpl mem0)
        (i\<lparr>n_heap := (n_heap i)(p \<mapsto> delete_this (SessionImpl mem0))\<rparr>))"
      using assms(4) p(1) True by (simp add: handleAccept_def Let_def)
    with assms(1) new(2) show ?thesis by (simp add: accepted_ok_start_accept accepted_ok_update)
  next
    case False
    then have i': "i' = start_accept mem (i\<lparr>n_clientId := n_clientId i + 1, n_sessions := n_sessions i @ [p],
        n_heap := (n_heap i)(p \<mapsto> ?s)\<rparr>)"
      using assms(4) p(1) by (simp add: handleAccept_def Let_def split: if_splits)
    have "accepted_ok (i\<lparr>n_clientId := n_clientId i + 1, n_sessions := n_sessions i @ [p], n_heap := (n_heap i)(p \<mapsto> ?s)\<rparr>)"
      using assms(1) new(1) by (simp add: accepted_ok_def)
    then show ?thesis unfolding i' by (rule accepted_ok_start_accept)
  qed
qed

lemma session_inv_sendData: "session_inv s \<Longrightarrow> \<not> freed s \<Longrightarrow> session_inv (session_sendData dat s)"
  using session_inv_step [of s "Send_data dat" "\<lambda>_ _ m. Inr m" "()" "session_sendData dat s" "()"] by simp

lemma accepted_ok_step:
  assumes "net_inv i" and "accepting_fresh i" and "accepted_ok i" and "net_step deliver i i'"
  shows "accepted_ok i'"
  using assms(4)
proof cases
  case (accept p mem error)
  with assms(2,3) show ?thesis by (blast intro: accepted_ok_handleAccept)
next
  case (session p s e)
  obtain s' m' where step: "session_step deliver e (s, n_manager i) = Inr (s', m')"
    and i': "i' = (let j = i\<lparr>n_heap := (n_heap i)(p \<mapsto> s'), n_manager := m'\<rparr>
      in if freed s' then SessionImpl_destroy p s' j else j)"
    using session(4) by (auto simp: session_event_at_def Let_def)
  have "destroyedFnc s" by (rule net_inv_accepted [OF assms(1) session(1-3)])
  with assms(3) session(1) have "session_inv s" by (simp add: accepted_ok_def)
  from session_inv_step [OF this session(2) step] accepted_ok_update(1) [OF assms(3)] show ?thesis
    by (simp add: i' Let_def)
next
  case (send dat c)
  obtain it where it: "find_session (n_heap i) c (n_sessions i) = Inr it" using send by (auto simp: send_callback_def)
  show ?thesis
  proof (cases it)
    case (Some p)
    with find_session_Some [of "n_heap i" c "n_sessions i" p] it obtain s where
      s: "p \<in> set (n_sessions i)" "n_heap i p = Some s" "\<not> freed s" by auto
    with assms(1) have "destroyedFnc s" by (auto simp: net_inv_def sessions_ok_def)
    with s assms(3) have "session_inv (session_sendData (createPacket dat) s)"
      by (intro session_inv_sendData) (auto simp: accepted_ok_def)
    with accepted_ok_update(2) [OF assms(3)] send it Some s(2) show ?thesis by (auto simp: send_callback_def)
  qed (use send it assms(3) in \<open>simp add: send_callback_def\<close>)
qed

interpretation accepted: invariant_of net_begin "net_step deliver" "\<lambda>i. (net_inv i \<and> accepting_fresh i) \<and> accepted_ok i"
proof unfold_locales
  have "accepted_ok i" if "net_begin i" for i :: "'a net_impl"
  proof -
    have "accepted_ok (net_Impl m)" for m :: 'a by (simp add: accepted_ok_def net_Impl_def)
    with that show ?thesis by (auto simp: net_begin_def intro: accepted_ok_start_accept)
  qed
  then show "(net_inv i \<and> accepting_fresh i) \<and> accepted_ok i" if "net_begin i" for i :: "'a net_impl"
    using that net_inv_begin accepting_fresh_begin by blast
  show "(net_inv i' \<and> accepting_fresh i') \<and> accepted_ok i'"
    if "(net_inv i \<and> accepting_fresh i) \<and> accepted_ok i" and "net_step deliver i i'" for i i'
    using that serving.inv_step accepted_ok_step by blast
qed

lemma handlePacket_posts:
  assumes "plain_string (handlerName pkg)" and "plain_string (signature pkg)" and "carried (data pkg)"
    and "hm_handlers m (handlerName pkg) = Some p" and "hm_heap m p = Some h"
    and "GetThreadId (hb_thread h) \<noteq> Some me"
  shows "\<exists>m' h' ni. handlePacket me uninit (RMIPacket_serialize [] pkg) cid m = Inr m' \<and>
    hm_heap m' p = Some h' \<and> ni_clientId ni = cid \<and>
    h' = h\<lparr>hb_thread := PostMsg (Some (signature pkg, escape (data pkg), ni)) (hb_thread h)\<rparr> \<and>
    callbacks (m_queue (hb_thread h')) = callbacks (m_queue (hb_thread h)) @ [(signature pkg, escape (data pkg), ni)]"
  using RMIPacket_carried [OF assms(1-3), of RMIPacket_init] assms(4-6)
  by (simp add: handlePacket_def Let_def handleCall_other worker_loop.pending_post set_clientId_def)

section \<open>The steps of one connection\<close>

lemma accept_done_ok:
  assumes "n_accepting i = Some p" and "n_heap i p = Some s" and "p < n_fresh i" and "n_clientId i \<noteq> 0x7FFFFFFF"
    and "length mem = max_length"
  obtains i1 where "accept_done mem False i = Inr i1"
    and "n_heap i1 p = Some (session_start (s\<lparr>s_clientId := n_clientId i, destroyedFnc := True\<rparr>))"
    and "n_sessions i1 = n_sessions i @ [p]" and "n_manager i1 = n_manager i"
proof -
  let ?j = "i\<lparr>n_clientId := n_clientId i + 1, n_sessions := n_sessions i @ [p],
      n_heap := (n_heap i)(p \<mapsto> session_start (s\<lparr>s_clientId := n_clientId i, destroyedFnc := True\<rparr>))\<rparr>"
  show ?thesis
  proof (rule that [of "start_accept mem ?j"])
    show "accept_done mem False i = Inr (start_accept mem ?j)"
      using assms by (simp add: accept_done_def handleAccept_def)
  qed (use assms(3) in \<open>simp_all add: start_accept_def Let_def\<close>)
qed

lemma completed_ok:
  assumes "n_heap i p = Some s" and "enabled e s" and "e \<notin> range Send_data" and "\<not> freed s'"
    and "session_step (handlePacket me uninit) e (s, n_manager i) = Inr (s', m')"
  shows "completed me uninit p e i = Inr (i\<lparr>n_heap := (n_heap i)(p \<mapsto> s'), n_manager := m'\<rparr>)"
  using assms by (cases e) (auto simp: completed_def session_event_at_def Let_def)

lemma completed_throws:
  assumes "n_heap i p = Some s" and "enabled e s" and "e \<notin> range Send_data"
    and "session_step (handlePacket me uninit) e (s, n_manager i) = Inl err"
  shows "completed me uninit p e i = Inl err"
  using assms by (cases e) (auto simp: completed_def session_event_at_def Let_def)

text \<open>The connection is accepted and the handshake done: the session is ready for its first request.\<close>

lemma client_connected:
  assumes "net_inv i" and "accepting_fresh i" and "n_accepting i = Some p" and "n_clientId i \<noteq> 0x7FFFFFFF"
    and "length mem = max_length"
  obtains i1 i2 s where "accept_done mem False i = Inr i1"
    and "completed me uninit p (Handshake_done False) i1 = Inr i2" and "n_heap i2 p = Some s"
    and "\<not> freed s" and "reading s" and "incBuffer s = []" and "length (s_data s) = max_length"
    and "s_clientId s = n_clientId i" and "n_sessions i2 = n_sessions i @ [p]" and "n_manager i2 = n_manager i"
proof -
  obtain mem0 where p: "n_heap i p = Some (SessionImpl mem0)" "length mem0 = max_length"
    using assms(2,3) by (auto simp: accepting_fresh_def)
  have fresh: "p < n_fresh i" using assms(1) p(1) by (auto simp: net_inv_def sessions_ok_def)
  define s1 where "s1 = session_start ((SessionImpl mem0)\<lparr>s_clientId := n_clientId i, destroyedFnc := True\<rparr>)"
  define s2 where "s2 = handleHandshake False (s1\<lparr>handshaking := False\<rparr>)"
  obtain i1 where i1: "accept_done mem False i = Inr i1" "n_heap i1 p = Some s1"
    "n_sessions i1 = n_sessions i @ [p]" "n_manager i1 = n_manager i"
    by (rule accept_done_ok [OF assms(3) p(1) fresh assms(4,5)]) (auto simp: s1_def)
  have i2: "completed me uninit p (Handshake_done False) i1 =
      Inr (i1\<lparr>n_heap := (n_heap i1)(p \<mapsto> s2), n_manager := n_manager i\<rparr>)"
    by (rule completed_ok [OF i1(2)]) (auto simp: s1_def s2_def session_ops i1(4))
  show ?thesis
    by (rule that [OF i1(1) i2, of s2]) (use p(2) i1(3) in \<open>simp_all add: s1_def s2_def session_ops\<close>)
qed

lemma empty_request: "handlePacket me uninit [] cid m = Inl Invalid_argument"
proof -
  have "RMIPacket_deserialize (istringstream []) RMIPacket_init = Inl Invalid_argument" by code_simp
  then show ?thesis by (simp add: handlePacket_def)
qed

section \<open>Properties\<close>


definition demo_server :: "(unit, nat) net_base" where
  "demo_server = \<lparr>nb_impl = start_accept (replicate max_length (CHR 0x00))
     (net_Impl (demo_manager\<lparr>hm_handlers := [''H'' \<mapsto> 0]\<rparr>)), nb_stopped = False\<rparr>"

lemma demo_server_begin: "net_begin (nb_impl demo_server)"
  unfolding net_begin_def demo_server_def by (intro exI conjI, rule length_replicate, simp)

lemma demo_server_fields:
  "\<not> nb_stopped demo_server" "n_accepting (nb_impl demo_server) = Some 0" "n_clientId (nb_impl demo_server) \<noteq> 0x7FFFFFFF"
  "n_sessions (nb_impl demo_server) = []" "n_clientId (nb_impl demo_server) = 0"
  "hm_handlers (n_manager (nb_impl demo_server)) ''H'' = Some 0"
  "hm_heap (n_manager (nb_impl demo_server)) 0 = Some demo_handler"
  by (simp_all add: demo_server_def start_accept_def net_Impl_def Let_def demo_manager_def HandlerManager_new_def)

text \<open>The data is what \<open>make_call\<close> writes for the numbers 10, 20 and 30.\<close>

definition demo_request :: RMIPacket where
  "demo_request = \<lparr>handlerName = ''H'', signature = ''f'', requestId = 1, data = ''{10,20,30''\<rparr>"


text \<open>
  C12 Every connection of the running server is in order, whatever the others do: in every reachable state of the server
  each open session has no write in progress if the buffer being processed is empty, and otherwise exactly one, of that
  buffer: writes never overlap, however often \<open>sendData\<close> is called; and it is reading as soon as its handshake is done.
\<close>

theorem open_sessions_in_order:
  assumes "net_begin i0" and "(net_step deliver)\<^sup>*\<^sup>* i0 i" and "p \<in> set (n_sessions i)"
  shows "\<exists>s. n_heap i p = Some s \<and> \<not> freed s \<and> length (s_data s) = max_length \<and>
    writing s = (if outBufferProcessing s = [] then [] else [outBufferProcessing s]) \<and>
    (handshaking s \<longleftrightarrow> \<not> reading s)"
proof -
  have inv: "net_inv i" "accepted_ok i" using accepted.inv_reachable [OF assms(1,2)] by auto
  then obtain s where s: "n_heap i p = Some s" "\<not> freed s" using net_inv_live assms(3) by blast
  with inv(1) assms(3) have "destroyedFnc s" by (auto simp: net_inv_def sessions_ok_def)
  with inv(2) s have "session_inv s" by (simp add: accepted_ok_def)
  with s show ?thesis by (simp add: session_inv_def)
qed

definition demo_net2 :: "unit net_impl" where
  "demo_net2 = projr (res_bind (send_callback ''x'' 0 demo_net1) (send_callback ''y'' 0))"

lemma demo_net2_reachable: "(net_step deliver)\<^sup>*\<^sup>* demo_net0 demo_net2"
proof -
  obtain i1 where i1: "send_callback ''x'' 0 demo_net1 = Inr i1"
    by (simp add: send_callback_def demo_net1_session session_ops)
  have h: "\<exists>s. n_heap i1 0 = Some s \<and> \<not> freed s \<and> s_clientId s = 0" "n_sessions i1 = [0]"
    using i1 by (auto simp: send_callback_def demo_net1_session session_ops)
  then have i2: "send_callback ''y'' 0 i1 = Inr demo_net2"
    unfolding demo_net2_def i1 res_bind_simps by (auto simp: send_callback_def)
  show ?thesis
    by (rule rtranclp.rtrancl_into_rtrancl [OF rtranclp.rtrancl_into_rtrancl [OF demo_net_reachable(2)]])
      (rule net_step.send, rule i1, rule net_step.send, rule i2)
qed

theorem open_sessions_in_order_witness:
  "\<exists>s. n_heap demo_net2 0 = Some s \<and> writing s = [outBufferProcessing s] \<and> transmitted s = [createPacket ''x'']"
proof -
  obtain s where s: "n_heap demo_net2 0 = Some s" "outBufferProcessing s \<noteq> []" "transmitted s = [createPacket ''x'']"
    and n: "n_sessions demo_net2 = [0]"
    by (auto simp: demo_net2_def send_callback_def demo_net1_session session_ops createPacket_eq)
  with open_sessions_in_order [OF demo_net_reachable(1) demo_net2_reachable, of 0] show ?thesis by auto
qed

lemma sessions_leaked:
  assumes "net_begin i0" and "(net_step deliver)\<^sup>*\<^sup>* i0 (nb_impl nb)" and "p \<in> set (n_sessions (nb_impl nb))"
  shows "\<exists>s. NetBase_destroy nb p = Some s \<and> \<not> freed s"
  using net_inv_live [OF net.inv_reachable [OF assms(1,2)] assms(3)]
  by (auto simp: NetBase_destroy_def drop_operations_def)

text \<open>
  C33 One client can end the server for all of them: an empty packet, or a packet that is too large
  for one read, which is delivered as the empty string, makes \<open>std::stoi\<close> throw in
  \<open>HandlerManager::handlePacket\<close>, and since nothing catches the exception it leaves
  \<open>io_context::run\<close> and \<open>NetBase::start\<close>, whatever else was to come.
\<close>

theorem packet_ends_server:
  assumes "\<not> nb_stopped nb" and "n_heap (nb_impl nb) p = Some s" and "\<not> freed s" and "reading s"
    and "incBuffer s = []" and "length (s_data s) = max_length"
    and "max_length < length (createPacket dat)" and "length (createPacket dat) \<le> 2 * max_length"
  shows "io_run me uninit (Session_event p (Read_done g (createPacket [])) # es) nb = Inl Invalid_argument \<and>
    io_run me uninit (Session_event p (Read_done g (take max_length (createPacket dat))) #
      Session_event p (Read_done g (drop max_length (createPacket dat))) # es) nb = Inl Invalid_argument"
proof
  have empty: "length (createPacket [] @ []) \<le> max_length" by (simp add: headerSize_def max_length_def)
  have "completed me uninit p (Read_done g (createPacket [])) (nb_impl nb) = Inl Invalid_argument"
    by (rule completed_throws [OF assms(2)])
      (use read_whole_packet_any [OF assms(3,5,6) empty, of "handlePacket me uninit" g "n_manager (nb_impl nb)"]
        assms(4) empty in \<open>auto simp: empty_request createPacket_eq\<close>)
  then show "io_run me uninit (Session_event p (Read_done g (createPacket [])) # es) nb = Inl Invalid_argument"
    using assms(1) by simp
  let ?a = "take max_length (createPacket dat)" and ?b = "drop max_length (createPacket dat)"
  obtain s1 s2 where first: "session_step (handlePacket me uninit) (Read_done g ?a) (s, n_manager (nb_impl nb)) =
      Inr (s1, n_manager (nb_impl nb))" "reading s1" "\<not> freed s1"
    and second: "session_step (handlePacket me uninit) (Read_done g ?b) (s1, n_manager (nb_impl nb)) = Inl Invalid_argument"
    using large_packet_reads [OF assms(3,5-8), of "handlePacket me uninit" g "n_manager (nb_impl nb)"]
    by (auto simp: empty_request)
  have ab: "?a \<noteq> []" "?b \<noteq> []" "length ?b \<le> max_length"
    using assms(7,8) by (auto simp: createPacket_eq max_length_def headerSize_def)
  let ?i1 = "(nb_impl nb)\<lparr>n_heap := (n_heap (nb_impl nb))(p \<mapsto> s1), n_manager := n_manager (nb_impl nb)\<rparr>"
  have 1: "completed me uninit p (Read_done g ?a) (nb_impl nb) = Inr ?i1"
    by (rule completed_ok [OF assms(2) _ _ first(3,1)]) (use ab(1) assms(4) in auto)
  have 2: "completed me uninit p (Read_done g ?b) ?i1 = Inl Invalid_argument"
    by (rule completed_throws [of _ _ s1]) (use ab first(2) second in auto)
  show "io_run me uninit (Session_event p (Read_done g ?a) # Session_event p (Read_done g ?b) # es) nb =
      Inl Invalid_argument"
    using assms(1) 1 2 by simp
qed

theorem packet_ends_server_witness:
  "io_run 1 0 [Session_event 0 (Read_done 0 (createPacket []))]
     (demo_server\<lparr>nb_impl := (nb_impl demo_server)\<lparr>n_heap := [0 \<mapsto> demo_ready]\<rparr>\<rparr>) = Inl Invalid_argument"
  using packet_ends_server [of "demo_server\<lparr>nb_impl := (nb_impl demo_server)\<lparr>n_heap := [0 \<mapsto> demo_ready]\<rparr>\<rparr>" 0
      demo_ready "replicate 1100 CHR ''x''" 1 0 0 "[]"] demo_large demo_server_fields(1)
  by (simp add: demo_ready_def demo_session_def session_ops del: io_run.simps)

end
