(* ===== verification/ClientNet.thy ===== *)
theory ClientNet
  imports Coreproto CppStd
begin

text \<open>
  The blocking TLS client (\<open>lib/clientnet.cpp\<close>). \<open>Impl::send\<close> writes one packet and reads once into
  the array \<open>reply_\<close>, which keeps its bytes from one call to the next. The socket is an input: whether
  the write succeeds (its error code is not looked at), and what \<open>read_some\<close> returns, \<open>None\<close> if it
  throws. \<open>pkgSize\<close> is uninitialised, the argument \<open>g\<close>. Resolving a name, connecting to an endpoint
  and the library's verdict on each certificate are arguments too.
\<close>

definition reply_length :: nat where "reply_length = 16 * 1024"

record client_net =
  reply :: bytes
  written :: "bytes list"
  connected :: bool

text \<open>
  The constructor: the array \<open>reply_\<close> is uninitialised, and loading the verify file may throw.
\<close>

definition loadVerifyFile :: "(string \<Rightarrow> bool) \<Rightarrow> string \<Rightarrow> client_net \<Rightarrow> client_net res" where
  "loadVerifyFile load_verify_file fileName c =
     (if \<not> load_verify_file fileName then Inl System_error else Inr c)"

definition ClientNet_new :: "(string \<Rightarrow> bool) \<Rightarrow> bytes \<Rightarrow> string \<Rightarrow> client_net res" where
  "ClientNet_new load_verify_file uninit sslVerifyFile =
     loadVerifyFile load_verify_file sslVerifyFile \<lparr>reply = uninit, written = [], connected = False\<rparr>"

definition getEndpoints :: "(string \<Rightarrow> string \<Rightarrow> 'ep list option) \<Rightarrow> string \<Rightarrow> int \<Rightarrow> 'ep list res" where
  "getEndpoints resolve hostname port =
     (case resolve hostname (to_string port) of None \<Rightarrow> Inl System_error | Some eps \<Rightarrow> Inr eps)"

definition verify_certificate :: "bool \<Rightarrow> bool" where
  "verify_certificate preverified = True"

text \<open>
  \<open>boost::asio::connect\<close> tries the endpoints one after the other and throws if none of them accepts;
  the handshake asks the verify callback about each certificate and throws if one is rejected.
\<close>

definition Impl_connect :: "('ep \<Rightarrow> bool) \<Rightarrow> bool list \<Rightarrow> 'ep list \<Rightarrow> client_net \<Rightarrow> client_net res" where
  "Impl_connect tcp_connect preverified endpoints c =
     (if \<not> list_ex tcp_connect endpoints then Inl System_error
      else if \<not> list_all verify_certificate preverified then Inl System_error
      else Inr (c\<lparr>connected := True\<rparr>))"

definition ClientNet_connect ::
  "(string \<Rightarrow> string \<Rightarrow> 'ep list option) \<Rightarrow> ('ep \<Rightarrow> bool) \<Rightarrow> bool list \<Rightarrow> string \<Rightarrow> int \<Rightarrow> client_net \<Rightarrow>
   client_net res" where
  "ClientNet_connect resolve tcp_connect preverified addr port c =
     res_bind (getEndpoints resolve addr port) (\<lambda>eps. Impl_connect tcp_connect preverified eps c)"

definition Impl_send :: "u32 \<Rightarrow> bool \<Rightarrow> bytes option \<Rightarrow> bytes \<Rightarrow> client_net \<Rightarrow> (string \<times> client_net) res" where
  "Impl_send g write_ok received data c =
     (let c = (if write_ok then c\<lparr>written := written c @ [data]\<rparr> else c)
      in case received of
           None \<Rightarrow> Inl System_error
         | Some bs \<Rightarrow>
             let c = c\<lparr>reply := bs @ drop (length bs) (reply c)\<rparr>
             in case isPacketComplete_array (reply c) g of
                  (True, pkgSize) \<Rightarrow> res_bind (fetchData_array (reply c) pkgSize) (\<lambda>s. Inr (s, c))
                | (False, _) \<Rightarrow> Inr ([], c))"

definition ClientNet_send :: "u32 \<Rightarrow> bool \<Rightarrow> bytes option \<Rightarrow> string \<Rightarrow> client_net \<Rightarrow> (string \<times> client_net) res" where
  "ClientNet_send g write_ok received data c = Impl_send g write_ok received (createPacket data) c"

text \<open>The destructor deletes the implementation, and the socket is closed with it.\<close>

definition ClientNet_destroy :: "client_net \<Rightarrow> client_net" where
  "ClientNet_destroy c = c\<lparr>connected := False\<rparr>"

section \<open>Properties\<close>

text \<open>
  C21 A request and its answer: the client writes the framed request, and if the answer packet arrives
  in one read that fits its array, it returns exactly the data of the answer.
\<close>

theorem client_send_returns_answer:
  assumes "length (createPacket ans) \<le> reply_length" and "length (reply c) = reply_length"
  shows "\<exists>c'. ClientNet_send g True (Some (createPacket ans)) req c = Inr (ans, c') \<and>
    written c' = written c @ [createPacket req] \<and> length (reply c') = reply_length"
proof -
  have ok: "packet_size_ok ans" using assms(1) by (simp add: reply_length_def)
  show ?thesis
    using assms array_framing.complete_frame [OF ok] array_framing.fetch_frame [OF ok]
    by (simp add: ClientNet_send_def Impl_send_def Let_def)
qed

theorem client_send_returns_answer_witness:
  "\<exists>c'. ClientNet_send 0 True (Some (createPacket ''yes''))  ''ping''
      \<lparr>reply = replicate reply_length (CHR 0x00), written = [], connected = True\<rparr> = Inr (''yes'', c') \<and>
    written c' = [createPacket ''ping'']"
  using client_send_returns_answer [of "''yes''"
      "\<lparr>reply = replicate reply_length (CHR 0x00), written = [], connected = True\<rparr>" 0 "''ping''"]
  by (auto simp: reply_length_def headerSize_def)

text \<open>
  A connection is made exactly if the name resolves and one of its endpoints accepts; the verify
  callback accepts every chain of certificates, also those the library rejected.
\<close>

theorem connect_ignores_certificates:
  "ClientNet_connect resolve tcp_connect preverified addr port c =
     (case resolve addr (to_string port) of
        None \<Rightarrow> Inl System_error
      | Some eps \<Rightarrow> if list_ex tcp_connect eps then Inr (c\<lparr>connected := True\<rparr>) else Inl System_error)"
proof -
  have "list_all verify_certificate preverified" by (simp add: verify_certificate_def list_all_iff)
  then show ?thesis by (auto simp: ClientNet_connect_def getEndpoints_def Impl_connect_def split: option.split)
qed

end
