(* ===== verification/Logging.thy ===== *)
theory Logging
  imports CppStd
begin

text \<open>
  The logger (\<open>lib/log.h\<close>, \<open>lib/log.cpp\<close>): expanding the placeholders of a message, and
  writing a line with a header of fixed width. Arguments of a message are the values of the
  \<open>output\<close> overloads: integers of any width, strings, objects with a \<open>toString\<close> (its result) and
  doubles (the text \<open>std::to_string\<close> gives). The header is written through a pointer into a buffer
  of 60 characters: a store outside of it is \<open>Out_of_bounds\<close>. The time, as either platform gives
  it, the number of the thread and what opening the file finds are inputs.
\<close>

section \<open>Expanding a message\<close>

datatype log_arg = LInt int | LString string | LObject string | LDouble string

fun log_output :: "string \<Rightarrow> log_arg \<Rightarrow> string" where
  "log_output msg (LInt val) = msg @ to_string val"
| "log_output msg (LString val) = msg @ val"
| "log_output msg (LObject val) = msg @ val"
| "log_output msg (LDouble val) = msg @ val"

text \<open>
  The loop of the overloads for two and more arguments; \<open>sel\<close> is their chain of comparisons of the
  placeholder. Unexpected placeholders are reported on \<open>stderr\<close>, collected in \<open>err\<close>.
\<close>

function format_loop ::
  "(char \<Rightarrow> log_arg option) \<Rightarrow> string \<Rightarrow> nat \<Rightarrow> string \<Rightarrow> string \<Rightarrow> string \<times> string" where
  "format_loop sel str i msg err =
     (if i < length str then
        if str ! i = CHR ''%'' \<and> length str \<ge> i + 3 \<and> str ! (i + 2) = CHR ''%'' then
          case sel (str ! (i + 1)) of
            Some t \<Rightarrow> format_loop sel str (i + 2 + 1) (log_output msg t) err
          | None \<Rightarrow> format_loop sel str (i + 2 + 1) msg (err @ [str ! (i + 1)])
        else format_loop sel str (i + 1) (msg @ [str ! i]) err
      else (msg, err))"
  by pat_completeness auto
termination
  by (relation "measure (\<lambda>(_, str, i, _). length str - i)") auto

text \<open>The overload for one argument knows no other placeholder than \<open>%1%\<close>.\<close>

function format_loop1 :: "log_arg \<Rightarrow> string \<Rightarrow> nat \<Rightarrow> string \<Rightarrow> string" where
  "format_loop1 t1 str i msg =
     (if i < length str then
        if str ! i = CHR ''%'' \<and> length str \<ge> i + 3 \<and> str ! (i + 1) = CHR ''1'' \<and> str ! (i + 2) = CHR ''%''
        then format_loop1 t1 str (i + 2 + 1) (log_output msg t1)
        else format_loop1 t1 str (i + 1) (msg @ [str ! i])
      else msg)"
  by pat_completeness auto
termination
  by (relation "measure (\<lambda>(_, str, i, _). length str - i)") auto

declare format_loop.simps [simp del] format_loop1.simps [simp del]

definition format0 :: "string \<Rightarrow> string" where
  "format0 str = str"

definition format1 :: "string \<Rightarrow> log_arg \<Rightarrow> string" where
  "format1 str t1 = format_loop1 t1 str 0 []"

definition format2 :: "string \<Rightarrow> log_arg \<Rightarrow> log_arg \<Rightarrow> string \<times> string" where
  "format2 str t1 t2 = format_loop
     (\<lambda>c. if c = CHR ''1'' then Some t1 else if c = CHR ''2'' then Some t2 else None) str 0 [] []"

definition format3 :: "string \<Rightarrow> log_arg \<Rightarrow> log_arg \<Rightarrow> log_arg \<Rightarrow> string \<times> string" where
  "format3 str t1 t2 t3 = format_loop
     (\<lambda>c. if c = CHR ''1'' then Some t1 else if c = CHR ''2'' then Some t2 else if c = CHR ''3'' then Some t3
       else None) str 0 [] []"

definition format4 :: "string \<Rightarrow> log_arg \<Rightarrow> log_arg \<Rightarrow> log_arg \<Rightarrow> log_arg \<Rightarrow> string \<times> string" where
  "format4 str t1 t2 t3 t4 = format_loop
     (\<lambda>c. if c = CHR ''1'' then Some t1 else if c = CHR ''2'' then Some t2 else if c = CHR ''3'' then Some t3
       else if c = CHR ''4'' then Some t4 else None) str 0 [] []"

definition format5 ::
  "string \<Rightarrow> log_arg \<Rightarrow> log_arg \<Rightarrow> log_arg \<Rightarrow> log_arg \<Rightarrow> log_arg \<Rightarrow> string \<times> string" where
  "format5 str t1 t2 t3 t4 t5 = format_loop
     (\<lambda>c. if c = CHR ''1'' then Some t1 else if c = CHR ''2'' then Some t2 else if c = CHR ''3'' then Some t3
       else if c = CHR ''4'' then Some t4 else if c = CHR ''5'' then Some t5 else None) str 0 [] []"

definition format6 ::
  "string \<Rightarrow> log_arg \<Rightarrow> log_arg \<Rightarrow> log_arg \<Rightarrow> log_arg \<Rightarrow> log_arg \<Rightarrow> log_arg \<Rightarrow> string \<times> string" where
  "format6 str t1 t2 t3 t4 t5 t6 = format_loop
     (\<lambda>c. if c = CHR ''1'' then Some t1 else if c = CHR ''2'' then Some t2 else if c = CHR ''3'' then Some t3
       else if c = CHR ''4'' then Some t4 else if c = CHR ''5'' then Some t5 else if c = CHR ''6'' then Some t6
       else None) str 0 [] []"

definition format7 ::
  "string \<Rightarrow> log_arg \<Rightarrow> log_arg \<Rightarrow> log_arg \<Rightarrow> log_arg \<Rightarrow> log_arg \<Rightarrow> log_arg \<Rightarrow> log_arg \<Rightarrow> string \<times> string" where
  "format7 str t1 t2 t3 t4 t5 t6 t7 = format_loop
     (\<lambda>c. if c = CHR ''1'' then Some t1 else if c = CHR ''2'' then Some t2 else if c = CHR ''3'' then Some t3
       else if c = CHR ''4'' then Some t4 else if c = CHR ''5'' then Some t5 else if c = CHR ''6'' then Some t6
       else if c = CHR ''7'' then Some t7 else None) str 0 [] []"

definition format8 ::
  "string \<Rightarrow> log_arg \<Rightarrow> log_arg \<Rightarrow> log_arg \<Rightarrow> log_arg \<Rightarrow> log_arg \<Rightarrow> log_arg \<Rightarrow> log_arg \<Rightarrow> log_arg \<Rightarrow>
   string \<times> string" where
  "format8 str t1 t2 t3 t4 t5 t6 t7 t8 = format_loop
     (\<lambda>c. if c = CHR ''1'' then Some t1 else if c = CHR ''2'' then Some t2 else if c = CHR ''3'' then Some t3
       else if c = CHR ''4'' then Some t4 else if c = CHR ''5'' then Some t5 else if c = CHR ''6'' then Some t6
       else if c = CHR ''7'' then Some t7 else if c = CHR ''8'' then Some t8 else None) str 0 [] []"

definition format9 ::
  "string \<Rightarrow> log_arg \<Rightarrow> log_arg \<Rightarrow> log_arg \<Rightarrow> log_arg \<Rightarrow> log_arg \<Rightarrow> log_arg \<Rightarrow> log_arg \<Rightarrow> log_arg \<Rightarrow>
   log_arg \<Rightarrow> string \<times> string" where
  "format9 str t1 t2 t3 t4 t5 t6 t7 t8 t9 = format_loop
     (\<lambda>c. if c = CHR ''1'' then Some t1 else if c = CHR ''2'' then Some t2 else if c = CHR ''3'' then Some t3
       else if c = CHR ''4'' then Some t4 else if c = CHR ''5'' then Some t5 else if c = CHR ''6'' then Some t6
       else if c = CHR ''7'' then Some t7 else if c = CHR ''8'' then Some t8 else if c = CHR ''9'' then Some t9
       else None) str 0 [] []"

text \<open>The reference: a message is read from left to right, without positions.\<close>

fun expand :: "(char \<Rightarrow> log_arg option) \<Rightarrow> string \<Rightarrow> string" where
  "expand sel (x # c # y # rest) =
     (if x = CHR ''%'' \<and> y = CHR ''%''
      then (case sel c of Some t \<Rightarrow> log_output [] t | None \<Rightarrow> []) @ expand sel rest
      else x # expand sel (c # y # rest))"
| "expand sel s = s"

lemma log_output_append: "log_output msg t = msg @ log_output [] t"
  by (cases t) simp_all

lemma format_loop_expand: "fst (format_loop sel str i msg err) = msg @ expand sel (drop i str)"
proof (induction sel str i msg err rule: format_loop.induct)
  case (1 sel str i msg err)
  show ?case
  proof (cases "i < length str")
    case True
    show ?thesis
    proof (cases "i + 3 \<le> length str")
      case True
      then have d: "drop i str = str ! i # str ! (i + 1) # str ! (i + 2) # drop (i + 3) str"
        by (simp add: Cons_nth_drop_Suc [symmetric] numeral_eq_Suc)
      have d1: "drop (i + 1) str = str ! (i + 1) # str ! (i + 2) # drop (i + 3) str"
        using True by (simp add: Cons_nth_drop_Suc [symmetric] numeral_eq_Suc)
      show ?thesis
        using 1 True d d1
        by (subst format_loop.simps) (auto simp: log_output_append [of msg] numeral_3_eq_3 split: option.split)
    next
      case False
      then have "drop i str = [str ! i] \<or> drop i str = [str ! i, str ! (i + 1)]"
        using \<open>i < length str\<close> by (cases "i + 1 < length str")
          (auto simp: Cons_nth_drop_Suc [symmetric])
      moreover have "drop (i + 1) str = tl (drop i str)" by (simp add: drop_Suc tl_drop)
      ultimately show ?thesis
        using 1 False \<open>i < length str\<close> by (subst format_loop.simps) auto
    qed
  qed (simp add: format_loop.simps)
qed

section \<open>The file name of a path\<close>

text \<open>
  \<open>for(;;--pos)\<close> from the terminating zero down to the start of the path, which is tested before the
  character at it.
\<close>

fun filename_loop :: "string \<Rightarrow> nat \<Rightarrow> string" where
  "filename_loop filePath 0 = filePath"
| "filename_loop filePath (Suc pos) =
     (if Suc pos < length filePath \<and> (filePath ! Suc pos = CHR ''/'' \<or> filePath ! Suc pos = CHR 0x5C)
      then drop (Suc pos + 1) filePath
      else filename_loop filePath pos)"

definition filenameSubStr :: "string \<Rightarrow> string" where
  "filenameSubStr filePath = filename_loop filePath (length filePath)"

definition is_sep :: "char \<Rightarrow> bool" where
  "is_sep c \<longleftrightarrow> c = CHR ''/'' \<or> c = CHR 0x5C"

lemma filename_loop_skip:
  "\<forall>c\<in>set (drop (Suc k) path). \<not> is_sep c \<Longrightarrow> k \<le> n \<Longrightarrow> filename_loop path n = filename_loop path k"
proof (induction n)
  case (Suc n)
  show ?case
  proof (cases "k = Suc n")
    case False
    then have k: "k \<le> n" using Suc.prems(2) by simp
    moreover have "path ! Suc n \<in> set (drop (Suc k) path)" if "Suc n < length path"
      using that k by (auto simp: in_set_conv_nth intro!: exI [of _ "n - k"])
    ultimately show ?thesis using Suc by (auto simp: is_sep_def)
  qed simp
qed simp

lemma filenameSubStr_cut:
  assumes "dir \<noteq> []" and "is_sep c" and "\<forall>x\<in>set name. \<not> is_sep x"
  shows "filenameSubStr (dir @ c # name) = name"
proof -
  obtain k where k: "length dir = Suc k" using assms(1) by (cases dir) auto
  have "filename_loop (dir @ c # name) (length (dir @ c # name)) = filename_loop (dir @ c # name) (length dir)"
    using assms(3) by (intro filename_loop_skip) simp_all
  also have "\<dots> = name"
    using assms(2) by (simp add: k is_sep_def nth_append)
  finally show ?thesis by (simp add: filenameSubStr_def)
qed

lemma filenameSubStr_whole:
  "\<forall>x\<in>set (tl path). \<not> is_sep x \<Longrightarrow> filenameSubStr path = path"
  using filename_loop_skip [of 0 path "length path"] by (simp add: filenameSubStr_def drop_Suc)

section \<open>Writing the header\<close>

record cursor =
  buf :: string
  pos :: nat

definition store_char :: "nat \<Rightarrow> char \<Rightarrow> string \<Rightarrow> string res" where
  "store_char p c b = (if p < length b then Inr (b[p := c]) else Inl Out_of_bounds)"

text \<open>\<open>*(pos++) = c\<close>\<close>

definition put :: "char \<Rightarrow> cursor \<Rightarrow> cursor res" where
  "put c cur = res_bind (store_char (pos cur) c (buf cur)) (\<lambda>b. Inr \<lparr>buf = b, pos = pos cur + 1\<rparr>)"

text \<open>Division and remainder of C++, which round towards zero.\<close>

definition cpp_div10 :: "int \<Rightarrow> int" where
  "cpp_div10 n = (if n < 0 then - ((- n) div 10) else n div 10)"

definition cpp_mod10 :: "int \<Rightarrow> int" where
  "cpp_mod10 n = (if n < 0 then - ((- n) mod 10) else n mod 10)"

fun padded_loop :: "nat \<Rightarrow> nat \<Rightarrow> int \<Rightarrow> char \<Rightarrow> nat \<Rightarrow> string \<Rightarrow> string res" where
  "padded_loop 0 i number pad p b = Inr b"
| "padded_loop (Suc k) i number pad p b =
     (if number = 0 \<and> i > 0
      then res_bind (store_char (p - 1) pad b) (padded_loop k (i + 1) number pad (p - 1))
      else res_bind (store_char (p - 1) (char_of (48 + cpp_mod10 number)) b)
             (padded_loop k (i + 1) (cpp_div10 number) pad (p - 1)))"

definition writePadded :: "int \<Rightarrow> nat \<Rightarrow> char \<Rightarrow> cursor \<Rightarrow> cursor res" where
  "writePadded number width pad cur =
     res_bind (padded_loop width 0 number pad (pos cur + width) (buf cur))
       (\<lambda>b. Inr \<lparr>buf = b, pos = pos cur + width\<rparr>)"

fun filename_chars :: "nat \<Rightarrow> string \<Rightarrow> cursor \<Rightarrow> cursor res" where
  "filename_chars 0 filename cur = Inr cur"
| "filename_chars (Suc k) filename cur =
     (case filename of
        [] \<Rightarrow> res_bind (put (CHR '' '') cur) (filename_chars k [])
      | c # cs \<Rightarrow> res_bind (put c cur) (filename_chars k cs))"

record tm =
  tm_year :: int
  tm_mon :: int
  tm_mday :: int
  tm_hour :: int
  tm_min :: int
  tm_sec :: int
  tv_usec :: int

definition log_header_at ::
  "int \<Rightarrow> int \<Rightarrow> int \<Rightarrow> int \<Rightarrow> int \<Rightarrow> int \<Rightarrow> int \<Rightarrow> int \<Rightarrow> int \<Rightarrow> string \<Rightarrow> int \<Rightarrow> cursor res" where
  "log_header_at year mon day hour minute sec ms tid level file line =
     res_bind (writePadded year 4 (CHR '' '') \<lparr>buf = replicate 60 (CHR 0x00), pos = 0\<rparr>) (\<lambda>c.
     res_bind (put (CHR ''-'') c) (\<lambda>c.
     res_bind (writePadded mon 2 (CHR ''0'') c) (\<lambda>c.
     res_bind (put (CHR ''-'') c) (\<lambda>c.
     res_bind (writePadded day 2 (CHR ''0'') c) (\<lambda>c.
     res_bind (put (CHR '' '') c) (\<lambda>c.
     res_bind (writePadded hour 2 (CHR ''0'') c) (\<lambda>c.
     res_bind (put (CHR '':'') c) (\<lambda>c.
     res_bind (writePadded minute 2 (CHR ''0'') c) (\<lambda>c.
     res_bind (put (CHR '':'') c) (\<lambda>c.
     res_bind (writePadded sec 2 (CHR ''0'') c) (\<lambda>c.
     res_bind (put (CHR ''.'') c) (\<lambda>c.
     res_bind (writePadded ms 3 (CHR ''0'') c) (\<lambda>c.
     res_bind (put (CHR '' '') c) (\<lambda>c.
     res_bind (writePadded level 1 (CHR '' '') c) (\<lambda>c.
     res_bind (put (CHR '' '') c) (\<lambda>c.
     res_bind (put (CHR ''t'') c) (\<lambda>c.
     res_bind (put (CHR '':'') c) (\<lambda>c.
     res_bind (put (CHR '' '') c) (\<lambda>c.
     res_bind (writePadded tid 4 (CHR '' '') c) (\<lambda>c.
     res_bind (put (CHR '' '') c) (\<lambda>c.
     res_bind (filename_chars 20 (filenameSubStr file) c) (\<lambda>c.
     res_bind (writePadded line 5 (CHR '' '') c) (\<lambda>c.
     put (CHR '' '') c)))))))))))))))))))))))"

text \<open>The fields of the time on POSIX systems and on Windows.\<close>

definition log_header :: "tm \<Rightarrow> int \<Rightarrow> int \<Rightarrow> string \<Rightarrow> int \<Rightarrow> cursor res" where
  "log_header time tid level file line =
     log_header_at (1900 + tm_year time) (tm_mon time + 1) (tm_mday time) (tm_hour time) (tm_min time)
       (tm_sec time) (tv_usec time div 1000) tid level file line"

record SYSTEMTIME =
  wYear :: int
  wMonth :: int
  wDay :: int
  wHour :: int
  wMinute :: int
  wSecond :: int
  wMilliseconds :: int

definition log_header_windows :: "SYSTEMTIME \<Rightarrow> int \<Rightarrow> int \<Rightarrow> string \<Rightarrow> int \<Rightarrow> cursor res" where
  "log_header_windows st tid level file line =
     log_header_at (wYear st) (wMonth st) (wDay st) (wHour st) (wMinute st) (wSecond st) (wMilliseconds st)
       tid level file line"

text \<open>The branches of the preprocessor: the time is read by \<open>gettimeofday\<close> or by \<open>GetSystemTime\<close>.\<close>

datatype clock = Posix tm | Windows SYSTEMTIME

fun clock_header :: "clock \<Rightarrow> int \<Rightarrow> int \<Rightarrow> string \<Rightarrow> int \<Rightarrow> cursor res" where
  "clock_header (Posix time) tid level file line = log_header time tid level file line"
| "clock_header (Windows st) tid level file line = log_header_windows st tid level file line"

text \<open>
  The file of the logger. \<open>logFile\<close> is what \<open>debug.log\<close> holds, \<open>None\<close> if it could not be opened;
  \<open>fopen\<close> is what opening it for appending finds. The logger is created at the first use and never
  deleted.
\<close>

record LogImpl =
  logFile :: "string option"

definition LogImpl_new :: "string option \<Rightarrow> LogImpl" where
  "LogImpl_new fopen = \<lparr>logFile = fopen\<rparr>"

definition LogImpl_instance :: "string option \<Rightarrow> LogImpl option \<Rightarrow> LogImpl" where
  "LogImpl_instance fopen impl = (case impl of None \<Rightarrow> LogImpl_new fopen | Some i \<Rightarrow> i)"

text \<open>
  \<open>Log::log\<close>: \<open>fputs\<close> writes up to the first zero character. The second result tells whether the
  assertion for halting fails.
\<close>

definition fputs :: "string \<Rightarrow> string \<Rightarrow> string" where
  "fputs s f = f @ takeWhile (\<lambda>c. c \<noteq> CHR 0x00) s"

definition log :: "string option \<Rightarrow> clock \<Rightarrow> int \<Rightarrow> int \<Rightarrow> string \<Rightarrow> int \<Rightarrow> bool \<Rightarrow> string \<Rightarrow>
  LogImpl option \<Rightarrow> (LogImpl option \<times> cpp_error option) res" where
  "log fopen time tid level file line halt msgContent impl =
     (let inst = LogImpl_instance fopen impl in
      case logFile inst of
        None \<Rightarrow> Inr (Some inst, None)
      | Some f \<Rightarrow>
          res_bind (clock_header time tid level file line) (\<lambda>c.
            let msg = buf c @ msgContent;
                f = fputs [CHR 0x0A] (fputs msg f)
            in Inr (Some (inst\<lparr>logFile := Some f\<rparr>), if halt then Some Assertion_failed else None)))"

text \<open>
  A statement of the logger: the object the macros create, and its call operator. The overload is
  chosen by the number of arguments; there is none for more than nine. The first result of
  \<open>Log_message\<close> is the message, the second what is reported on \<open>stderr\<close>.
\<close>

record Log =
  logLevel :: int
  log_filename :: string
  lineNo :: int
  log_halt :: bool

definition Log_new :: "int \<Rightarrow> string \<Rightarrow> int \<Rightarrow> bool \<Rightarrow> Log" where
  "Log_new level filename line halt =
     \<lparr>logLevel = level, log_filename = filename, lineNo = line, log_halt = halt\<rparr>"

definition LOG_TRACE :: "string \<Rightarrow> int \<Rightarrow> Log" where
  "LOG_TRACE file line = Log_new 0 file line False"

definition LOG_INFO :: "string \<Rightarrow> int \<Rightarrow> Log" where
  "LOG_INFO file line = Log_new 1 file line False"

definition LOG_WARN :: "string \<Rightarrow> int \<Rightarrow> Log" where
  "LOG_WARN file line = Log_new 2 file line False"

definition LOG_HALT :: "string \<Rightarrow> int \<Rightarrow> Log" where
  "LOG_HALT file line = Log_new 3 file line True"

fun Log_message :: "string \<Rightarrow> log_arg list \<Rightarrow> (string \<times> string) option" where
  "Log_message str [] = Some (format0 str, [])"
| "Log_message str [t1] = Some (format1 str t1, [])"
| "Log_message str [t1, t2] = Some (format2 str t1 t2)"
| "Log_message str [t1, t2, t3] = Some (format3 str t1 t2 t3)"
| "Log_message str [t1, t2, t3, t4] = Some (format4 str t1 t2 t3 t4)"
| "Log_message str [t1, t2, t3, t4, t5] = Some (format5 str t1 t2 t3 t4 t5)"
| "Log_message str [t1, t2, t3, t4, t5, t6] = Some (format6 str t1 t2 t3 t4 t5 t6)"
| "Log_message str [t1, t2, t3, t4, t5, t6, t7] = Some (format7 str t1 t2 t3 t4 t5 t6 t7)"
| "Log_message str [t1, t2, t3, t4, t5, t6, t7, t8] = Some (format8 str t1 t2 t3 t4 t5 t6 t7 t8)"
| "Log_message str [t1, t2, t3, t4, t5, t6, t7, t8, t9] = Some (format9 str t1 t2 t3 t4 t5 t6 t7 t8 t9)"
| "Log_message str _ = None"

definition logImpl :: "string option \<Rightarrow> clock \<Rightarrow> int \<Rightarrow> Log \<Rightarrow> string \<Rightarrow> LogImpl option \<Rightarrow>
  (LogImpl option \<times> cpp_error option) res" where
  "logImpl fopen time tid lg msg impl =
     log fopen time tid (logLevel lg) (log_filename lg) (lineNo lg) (log_halt lg) msg impl"

text \<open>\<open>getThreadString\<close>, over the number the system gives the thread.\<close>

definition getThreadString :: "nat \<Rightarrow> string" where
  "getThreadString tid = to_string (int tid)"

text \<open>
  The statements a program executes one after the other: each with the time and the thread of its
  execution. A failed assertion ends the program.
\<close>

fun run_logs :: "string option \<Rightarrow> (clock \<times> int \<times> Log \<times> string \<times> log_arg list) list \<Rightarrow> LogImpl option \<Rightarrow>
  (LogImpl option \<times> cpp_error option) res" where
  "run_logs fopen [] impl = Inr (impl, None)"
| "run_logs fopen ((time, tid, lg, str, args) # rest) impl =
     (case Log_message str args of
        None \<Rightarrow> Inl No_overload
      | Some (msg, err) \<Rightarrow>
          res_bind (logImpl fopen time tid lg msg impl) (\<lambda>(impl', stop).
            case stop of Some e \<Rightarrow> Inr (impl', Some e) | None \<Rightarrow> run_logs fopen rest impl'))"

section \<open>What is written\<close>

fun padded :: "nat \<Rightarrow> nat \<Rightarrow> int \<Rightarrow> char \<Rightarrow> string" where
  "padded 0 i n pad = []"
| "padded (Suc k) i n pad =
     (if n = 0 \<and> i > 0 then padded k (i + 1) n pad @ [pad]
      else padded k (i + 1) (cpp_div10 n) pad @ [char_of (48 + cpp_mod10 n)])"

lemma length_padded [simp]: "length (padded k i n pad) = k"
  by (induction k i n pad rule: padded.induct) simp_all

lemma padded_loop_padded:
  "k \<le> p \<Longrightarrow> p \<le> length b \<Longrightarrow>
   padded_loop k i n pad p b = Inr (take (p - k) b @ padded k i n pad @ drop p b)"
proof (induction k i n pad p b rule: padded_loop.induct)
  case (2 k i number pad p b)
  then obtain q where q: "p = Suc q" by (cases p) auto
  have upd: "take (q - k) (b[q := c]) = take (q - k) b" "drop q (b[q := c]) = c # drop p b" for c
    using 2(4) q by (simp_all add: Cons_nth_drop_Suc [symmetric])
  show ?case
    using 2 q upd by (auto simp: store_char_def)
qed simp

text \<open>A cursor behind the text \<open>w\<close> in a buffer of 60 characters.\<close>

definition cursor_of :: "string \<Rightarrow> cursor" where
  "cursor_of w = \<lparr>buf = w @ replicate (60 - length w) (CHR 0x00), pos = length w\<rparr>"

lemma put_cursor: "length w < 60 \<Longrightarrow> put c (cursor_of w) = Inr (cursor_of (w @ [c]))"
  by (cases "60 - length w") (auto simp: put_def cursor_of_def store_char_def list_update_append)

lemma writePadded_cursor:
  "length w + k \<le> 60 \<Longrightarrow> writePadded n k pad (cursor_of w) = Inr (cursor_of (w @ padded k 0 n pad))"
  by (simp add: writePadded_def cursor_of_def padded_loop_padded)

definition file_field :: "nat \<Rightarrow> string \<Rightarrow> string" where
  "file_field k filename = take k filename @ replicate (k - length filename) (CHR '' '')"

lemma length_file_field [simp]: "length (file_field k s) = k"
  by (simp add: file_field_def)

lemma filename_chars_cursor:
  "length w + k \<le> 60 \<Longrightarrow> filename_chars k s (cursor_of w) = Inr (cursor_of (w @ file_field k s))"
  by (induction k s "cursor_of w" arbitrary: w rule: filename_chars.induct)
    (auto simp: put_cursor file_field_def split: list.split)

definition header_text ::
  "int \<Rightarrow> int \<Rightarrow> int \<Rightarrow> int \<Rightarrow> int \<Rightarrow> int \<Rightarrow> int \<Rightarrow> int \<Rightarrow> int \<Rightarrow> string \<Rightarrow> int \<Rightarrow> string" where
  "header_text year mon day hour minute sec ms tid level file line =
     padded 4 0 year (CHR '' '') @ ''-'' @ padded 2 0 mon (CHR ''0'') @ ''-'' @
     padded 2 0 day (CHR ''0'') @ '' '' @ padded 2 0 hour (CHR ''0'') @ '':'' @
     padded 2 0 minute (CHR ''0'') @ '':'' @ padded 2 0 sec (CHR ''0'') @ ''.'' @
     padded 3 0 ms (CHR ''0'') @ '' '' @ padded 1 0 level (CHR '' '') @ '' t: '' @
     padded 4 0 tid (CHR '' '') @ '' '' @ file_field 20 (filenameSubStr file) @
     padded 5 0 line (CHR '' '') @ '' ''"

lemma length_header_text: "length (header_text year mon day hour minute sec ms tid level file line) = 60"
  by (simp add: header_text_def)

lemma log_header_text:
  "log_header_at year mon day hour minute sec ms tid level file line =
     Inr (cursor_of (header_text year mon day hour minute sec ms tid level file line))"
proof -
  have start: "\<lparr>buf = replicate 60 (CHR 0x00), pos = 0\<rparr> = cursor_of []" by (simp add: cursor_of_def)
  show ?thesis
    unfolding log_header_at_def start header_text_def
    by (simp add: put_cursor writePadded_cursor filename_chars_cursor)
qed

definition aligned :: "nat \<Rightarrow> char \<Rightarrow> string \<Rightarrow> string" where
  "aligned k pad s =
     (if length s \<le> k then replicate (k - length s) pad @ s else drop (length s - k) s)"

lemma aligned_snoc: "aligned (Suc k) pad (s @ [d]) = aligned k pad s @ [d]"
  by (auto simp: aligned_def Suc_diff_le)

lemma cpp_digits: "cpp_div10 (int m) = int (m div 10)" "char_of (48 + cpp_mod10 (int m)) = digit_char (m mod 10)"
proof -
  show "cpp_div10 (int m) = int (m div 10)" by (simp add: cpp_div10_def zdiv_int)
  have "48 + cpp_mod10 (int m) = int (48 + m mod 10)" by (simp add: cpp_mod10_def zmod_int)
  then show "char_of (48 + cpp_mod10 (int m)) = digit_char (m mod 10)"
    by (simp only: digit_char_def char_of_nat)
qed

lemma padded_digits:
  "0 < i \<Longrightarrow> padded k i (int m) pad = aligned k pad (if m = 0 then [] else nat_to_string m)"
proof (induction k arbitrary: i m)
  case (Suc k)
  show ?case
  proof (cases "m = 0")
    case True
    with Suc.IH [of "i + 1" 0] Suc.prems show ?thesis
      by (simp add: aligned_def replicate_append_same)
  next
    case False
    have "nat_to_string m = (if m div 10 = 0 then [] else nat_to_string (m div 10)) @ [digit_char (m mod 10)]"
      by (subst nat_to_string.simps) auto
    with False Suc.IH [of "i + 1" "m div 10"] show ?thesis
      by (simp add: cpp_digits aligned_snoc del: of_nat_div)
  qed
qed (simp add: aligned_def)

lemma padded_aligned: "padded (Suc k) 0 (int m) pad = aligned (Suc k) pad (nat_to_string m)"
proof -
  have "nat_to_string m = (if m div 10 = 0 then [] else nat_to_string (m div 10)) @ [digit_char (m mod 10)]"
    by (subst nat_to_string.simps) auto
  then show ?thesis
    using padded_digits [of 1 k "m div 10" pad] by (simp add: cpp_digits aligned_snoc del: of_nat_div)
qed

text \<open>The line of a statement, and the file after a statement.\<close>

fun clock_text :: "clock \<Rightarrow> int \<Rightarrow> int \<Rightarrow> string \<Rightarrow> int \<Rightarrow> string" where
  "clock_text (Posix time) tid level file line =
     header_text (1900 + tm_year time) (tm_mon time + 1) (tm_mday time) (tm_hour time) (tm_min time)
       (tm_sec time) (tv_usec time div 1000) tid level file line"
| "clock_text (Windows st) tid level file line =
     header_text (wYear st) (wMonth st) (wDay st) (wHour st) (wMinute st) (wSecond st) (wMilliseconds st)
       tid level file line"

lemma log_writes:
  "log fopen time tid level file line halt msg (Some \<lparr>logFile = Some f\<rparr>) =
     Inr (Some \<lparr>logFile = Some (f @ takeWhile (\<lambda>c. c \<noteq> CHR 0x00)
         (clock_text time tid level file line @ msg) @ [CHR 0x0A])\<rparr>,
       if halt then Some Assertion_failed else None)"
  "length (clock_text time tid level file line) = 60"
  by (cases time; simp add: log_def LogImpl_instance_def log_header_def log_header_windows_def log_header_text
      length_header_text cursor_of_def fputs_def)+

definition stmt_line :: "clock \<times> int \<times> Log \<times> string \<times> log_arg list \<Rightarrow> string" where
  "stmt_line stmt = (case stmt of (time, tid, lg, str, args) \<Rightarrow>
     takeWhile (\<lambda>c. c \<noteq> CHR 0x00) (clock_text time tid (logLevel lg) (log_filename lg) (lineNo lg) @
       (case Log_message str args of Some (msg, _) \<Rightarrow> msg | None \<Rightarrow> [])) @ [CHR 0x0A])"

text \<open>The class has overloads for up to nine arguments: a statement with more does not compile.\<close>

definition has_overload :: "clock \<times> int \<times> Log \<times> string \<times> log_arg list \<Rightarrow> bool" where
  "has_overload stmt = (case stmt of (time, tid, lg, str, args) \<Rightarrow> length args \<le> 9)"

definition quiet :: "clock \<times> int \<times> Log \<times> string \<times> log_arg list \<Rightarrow> bool" where
  "quiet stmt = (case stmt of (time, tid, lg, str, args) \<Rightarrow> \<not> log_halt lg \<and> length args \<le> 9)"

lemma Log_message_defined: "length args \<le> 9 \<Longrightarrow> \<exists>msg err. Log_message str args = Some (msg, err)"
  by (cases "(str, args)" rule: Log_message.cases) (auto simp: split_paired_all)

lemma run_logs_start:
  "stmts \<noteq> [] \<Longrightarrow> run_logs fopen stmts None = run_logs fopen stmts (Some \<lparr>logFile = fopen\<rparr>)"
  by (cases stmts) (auto simp: logImpl_def log_def LogImpl_instance_def LogImpl_new_def split: option.split)

lemma run_logs_append:
  "list_all quiet stmts \<Longrightarrow> run_logs fopen (stmts @ rest) (Some \<lparr>logFile = Some f\<rparr>) =
     run_logs fopen rest (Some \<lparr>logFile = Some (f @ concat (map stmt_line stmts))\<rparr>)"
proof (induction stmts arbitrary: f)
  case (Cons stmt stmts)
  obtain time tid lg str args where stmt: "stmt = (time, tid, lg, str, args)" by (cases stmt) auto
  with Cons.prems obtain msg err where "Log_message str args = Some (msg, err)"
    using Log_message_defined [of args str] by (auto simp: quiet_def)
  with Cons stmt show ?case by (simp add: quiet_def logImpl_def log_writes stmt_line_def)
qed simp

lemma run_logs_closed:
  "list_all has_overload stmts \<Longrightarrow> run_logs fopen stmts (Some \<lparr>logFile = None\<rparr>) = Inr (Some \<lparr>logFile = None\<rparr>, None)"
proof (induction stmts)
  case (Cons stmt stmts)
  obtain time tid lg str args where stmt: "stmt = (time, tid, lg, str, args)" by (cases stmt) auto
  with Cons.prems obtain msg err where "Log_message str args = Some (msg, err)"
    using Log_message_defined [of args str] by (auto simp: has_overload_def)
  with Cons stmt show ?case by (simp add: logImpl_def log_def LogImpl_instance_def)
qed simp

section \<open>Properties\<close>

text \<open>
  C24 Writing a log line never leaves its buffer: whatever the time, the thread, the level, the path and
  the line number are, also negative ones, on either platform, the header fills the 60 characters of
  the buffer exactly, and the line in the file is the header and the message, up to a zero
  character, and a newline; the program halts only after that.
\<close>

theorem log_line_written:
  "log fopen time tid level file line halt msg (Some \<lparr>logFile = Some f\<rparr>) =
     Inr (Some \<lparr>logFile = Some (f @ takeWhile (\<lambda>c. c \<noteq> CHR 0x00)
         (clock_text time tid level file line @ msg) @ [CHR 0x0A])\<rparr>,
       if halt then Some Assertion_failed else None) \<and>
   length (clock_text time tid level file line) = 60"
  by (simp add: log_writes)

text \<open>
  C25 The statements executed before the program is halted leave their lines in the file, in their
  order and behind what the file held when it was opened at the first of them; the statement that
  halts is written too and nothing after it. If the file cannot be opened nothing is written and no
  statement halts, also none that asks for it.
\<close>

theorem log_statements_in_order:
  assumes "Log_message hstr hargs = Some (hmsg, herr)"
    and "log_halt hlg"
    and "list_all quiet stmts"
    and "list_all has_overload any"
  shows "run_logs (Some f) (stmts @ (htime, htid, hlg, hstr, hargs) # rest) None =
     Inr (Some \<lparr>logFile = Some (f @ concat (map stmt_line stmts) @
         stmt_line (htime, htid, hlg, hstr, hargs))\<rparr>, Some Assertion_failed) \<and>
    run_logs None any None = Inr (if any = [] then None else Some \<lparr>logFile = None\<rparr>, None)"
proof
  have "run_logs (Some f) ((htime, htid, hlg, hstr, hargs) # rest) (Some \<lparr>logFile = Some g\<rparr>) =
    Inr (Some \<lparr>logFile = Some (g @ stmt_line (htime, htid, hlg, hstr, hargs))\<rparr>, Some Assertion_failed)" for g
    using assms(1,2) by (simp add: logImpl_def log_writes stmt_line_def)
  then show "run_logs (Some f) (stmts @ (htime, htid, hlg, hstr, hargs) # rest) None =
     Inr (Some \<lparr>logFile = Some (f @ concat (map stmt_line stmts) @
         stmt_line (htime, htid, hlg, hstr, hargs))\<rparr>, Some Assertion_failed)"
    using assms(3) by (simp add: run_logs_start run_logs_append del: run_logs.simps)
  show "run_logs None any None = Inr (if any = [] then None else Some \<lparr>logFile = None\<rparr>, None)"
    using assms(4) run_logs_start [of any None] run_logs_closed [of any None] by (cases "any = []") simp_all
qed

definition epoch :: tm where
  "epoch = \<lparr>tm_year = 70, tm_mon = 0, tm_mday = 1, tm_hour = 0, tm_min = 0, tm_sec = 0, tv_usec = 0\<rparr>"

theorem log_statements_in_order_witness:
  "run_logs (Some ''x'') [(Posix epoch, 1, LOG_INFO ''a.cpp'' 1, ''on %1%'', [LInt 7]),
      (Posix epoch, 1, LOG_HALT ''a.cpp'' 2, ''off'', []), (Posix epoch, 1, LOG_INFO ''a.cpp'' 3, ''gone'', [])] None =
   Inr (Some \<lparr>logFile = Some (''x'' @ stmt_line (Posix epoch, 1, LOG_INFO ''a.cpp'' 1, ''on %1%'', [LInt 7]) @
      stmt_line (Posix epoch, 1, LOG_HALT ''a.cpp'' 2, ''off'', []))\<rparr>, Some Assertion_failed) \<and>
   run_logs None [(Posix epoch, 1, LOG_HALT ''a.cpp'' 2, ''off'', []), (Posix epoch, 1, LOG_INFO ''a.cpp'' 3, ''gone'', [])] None =
     Inr (Some \<lparr>logFile = None\<rparr>, None)"
  using log_statements_in_order [of "''off''" "[]" "''off''" "[]" "LOG_HALT ''a.cpp'' 2"
      "[(Posix epoch, 1, LOG_INFO ''a.cpp'' 1, ''on %1%'', [LInt 7])]"
      "[(Posix epoch, 1, LOG_HALT ''a.cpp'' 2, ''off'', []), (Posix epoch, 1, LOG_INFO ''a.cpp'' 3, ''gone'', [])]" "''x''" "Posix epoch" 1
      "[(Posix epoch, 1, LOG_INFO ''a.cpp'' 3, ''gone'', [])]"]
  by (simp add: LOG_HALT_def LOG_INFO_def Log_new_def format0_def quiet_def has_overload_def del: run_logs.simps)

text \<open>
  A number is written right-aligned in its field: its decimal digits with the padding in front, or
  its last digits if the field is too small; zero is a single digit.
\<close>

theorem writePadded_correct:
  assumes "0 < width" and "length w + width \<le> 60"
  shows "writePadded (int n) width pad (cursor_of w) = Inr (cursor_of (w @
    (if length (nat_to_string n) \<le> width then replicate (width - length (nat_to_string n)) pad @ nat_to_string n
     else drop (length (nat_to_string n) - width) (nat_to_string n))))"
  using assms padded_aligned [of "width - 1" n pad] by (simp add: writePadded_cursor aligned_def)

theorem writePadded_correct_witness:
  "writePadded 7 3 (CHR ''0'') (cursor_of ''ab'') = Inr (cursor_of ''ab007'') \<and>
   writePadded 123 2 (CHR ''0'') (cursor_of []) = Inr (cursor_of ''23'')"
proof -
  have "nat_to_string 7 = ''7''" "nat_to_string 123 = ''123''" by code_simp+
  then show ?thesis
    using writePadded_correct [of 3 "''ab''" 7 "CHR ''0''"] writePadded_correct [of 2 "[]" 123 "CHR ''0''"]
    by (simp add: numeral_2_eq_2)
qed

text \<open>
  C26 Expanding a message with two and more arguments is a left-to-right substitution: a character
  between two percent signs is a placeholder, replaced by its argument or dropped if there is none,
  and everything else is copied; the index arithmetic of the loop never skips or repeats a
  character.
\<close>

theorem format_is_substitution:
  "fst (format2 str t1 t2) =
     expand (\<lambda>c. if c = CHR ''1'' then Some t1 else if c = CHR ''2'' then Some t2 else None) str \<and>
   fst (format9 str t1 t2 t3 t4 t5 t6 t7 t8 t9) =
     expand (\<lambda>c. if c \<in> set ''123456789''
       then Some ([t1, t2, t3, t4, t5, t6, t7, t8, t9] ! (of_char c - 49)) else None) str"
proof -
  have "(\<lambda>c. if c = CHR ''1'' then Some t1 else if c = CHR ''2'' then Some t2 else if c = CHR ''3'' then Some t3
       else if c = CHR ''4'' then Some t4 else if c = CHR ''5'' then Some t5 else if c = CHR ''6'' then Some t6
       else if c = CHR ''7'' then Some t7 else if c = CHR ''8'' then Some t8 else if c = CHR ''9'' then Some t9
       else None) =
     (\<lambda>c. if c \<in> set ''123456789''
       then Some ([t1, t2, t3, t4, t5, t6, t7, t8, t9] ! (of_char c - 49)) else None)"
    by (intro ext) simp
  then show ?thesis by (simp add: format2_def format9_def format_loop_expand)
qed

text \<open>
  The file name of a path is what follows its last separator, except that a separator at the very
  start of the path is not seen: a path with no other separator is returned whole.
\<close>

theorem filename_after_last_separator:
  assumes "\<forall>c\<in>set name. c \<noteq> CHR ''/'' \<and> c \<noteq> CHR 0x5C"
  shows "(dir \<noteq> [] \<longrightarrow> filenameSubStr (dir @ CHR ''/'' # name) = name) \<and>
    filenameSubStr (CHR ''/'' # name) = CHR ''/'' # name \<and> filenameSubStr name = name"
  using assms filenameSubStr_cut [of dir "CHR ''/''" name] filenameSubStr_whole [of "CHR ''/'' # name"]
    filenameSubStr_whole [of name]
  by (cases name) (simp_all add: is_sep_def)

theorem filename_after_last_separator_witness:
  "filenameSubStr ''src/lib/log.cpp'' = ''log.cpp'' \<and> filenameSubStr ''/log.cpp'' = ''/log.cpp''"
  using filename_after_last_separator [of "''log.cpp''" "''src/lib''"] by simp

end
