(* ===== verification/SocketServer.thy ===== *)
theory SocketServer
  imports Prelude
begin

text \<open>
  The server on plain sockets (\<open>lib/server.h\<close>, \<open>lib/server.cpp\<close>,
  the constants of \<open>lib/netutil.h\<close>), for POSIX systems. The system calls are
  inputs: the value a call returns, and for \<open>recv\<close> the bytes, for \<open>select\<close> the sets of
  ready descriptors. A \<open>ClientConnection*\<close> is an address in \<open>conns\<close>. The callbacks the server
  is created with are arguments; \<open>user\<close> is the state they act on. \<open>wire\<close> records what
  \<open>send\<close> accepted and \<open>closed\<close> the descriptors closed.
\<close>

section \<open>State\<close>

definition NULLSOCKET :: int where "NULLSOCKET = 0"
definition SOCKET_ERROR :: int where "SOCKET_ERROR = 1"
definition MAX_PATH :: nat where "MAX_PATH = 1024 * 64"
definition FD_SETSIZE :: nat where "FD_SETSIZE = 1024"

datatype ConnectionState = Disconnected | Connected

record connection =
  c_fd :: nat
  receivedData :: bytes
  dataToSend :: bytes

text \<open>An entry of \<open>clientSockets\<close> may hold the null pointer, which \<open>operator[]\<close> inserts.\<close>

record 'u server =
  listenSocket :: int
  clientSockets :: "nat \<Rightarrow> nat option option"
  writingSockets :: "nat set"
  active_fd_set :: "nat set"
  conns :: "nat \<Rightarrow> connection option"
  next_conn :: nat
  wire :: "(nat \<times> bytes) list"
  closed :: "nat list"
  user :: 'u

record 'u callbacks =
  dataCallback :: "bytes \<Rightarrow> nat \<Rightarrow> 'u server \<Rightarrow> 'u server"
  dataCompleteCallback :: "bytes \<Rightarrow> bool"
  clientStateChangedCallback :: "nat option \<Rightarrow> ConnectionState \<Rightarrow> 'u server \<Rightarrow> 'u server"

definition Server :: "'u \<Rightarrow> 'u server" where
  "Server u = \<lparr>listenSocket = NULLSOCKET, clientSockets = (\<lambda>_. None), writingSockets = {}, active_fd_set = {},
     conns = (\<lambda>_. None), next_conn = 0, wire = [], closed = [], user = u\<rparr>"

text \<open>\<open>closesocket\<close> hands the descriptor to \<open>close\<close>.\<close>

definition closesocket :: "int \<Rightarrow> 'u server \<Rightarrow> 'u server" where
  "closesocket fd d = d\<lparr>closed := closed d @ [nat fd]\<rparr>"

text \<open>The destructor of the implementation closes the listening socket if there is one.\<close>

definition Server_destroy :: "'u server \<Rightarrow> 'u server" where
  "Server_destroy d =
     (if listenSocket d \<noteq> 0 then closesocket (listenSocket d) d else d)"

section \<open>Opening the server\<close>

text \<open>The results of \<open>getaddrinfo\<close>, \<open>socket\<close> and \<open>bind\<close> are arguments.\<close>

definition Server_init :: "int \<Rightarrow> int \<Rightarrow> int \<Rightarrow> 'u server \<Rightarrow> bool \<times> 'u server" where
  "Server_init getaddrinfo_ret socket_ret bind_ret d =
     (if getaddrinfo_ret \<noteq> 0 then (False, d)
      else
        let d = d\<lparr>listenSocket := socket_ret\<rparr>
        in if listenSocket d = NULLSOCKET then (False, d)
           else if bind_ret = SOCKET_ERROR then (True, d)
           else (True, d))"

definition Server_listen :: "int \<Rightarrow> 'u server \<Rightarrow> bool" where
  "Server_listen listen_ret d = (if listen_ret = SOCKET_ERROR then False else True)"

section \<open>Connections\<close>

definition upd_conn :: "nat \<Rightarrow> (connection \<Rightarrow> connection) \<Rightarrow> 'u server \<Rightarrow> 'u server" where
  "upd_conn p f d = (case conns d p of None \<Rightarrow> d | Some c \<Rightarrow> d\<lparr>conns := (conns d)(p \<mapsto> f c)\<rparr>)"

text \<open>\<open>sendData\<close> has two critical sections: under the mutex of the connection, and under that of the server.\<close>

definition sendData_append :: "nat \<Rightarrow> bytes \<Rightarrow> 'u server \<Rightarrow> 'u server" where
  "sendData_append this data d = upd_conn this (\<lambda>c. c\<lparr>dataToSend := dataToSend c @ data\<rparr>) d"

definition sendData_mark :: "nat \<Rightarrow> 'u server \<Rightarrow> 'u server" where
  "sendData_mark this d = d\<lparr>writingSockets := insert this (writingSockets d)\<rparr>"

definition conn_sendData :: "nat \<Rightarrow> bytes \<Rightarrow> 'u server \<Rightarrow> 'u server" where
  "conn_sendData this data d = sendData_mark this (sendData_append this data d)"

text \<open>
  \<open>recv\<close> returned an error (\<open>None\<close>) or so many bytes; none means the peer has closed.
  Resizing a vector to \<open>-1\<close> elements throws.
\<close>

definition receiveDataFromSocket ::
  "'u callbacks \<Rightarrow> bytes option \<Rightarrow> nat \<Rightarrow> 'u server \<Rightarrow> (bool \<times> 'u server) res" where
  "receiveDataFromSocket cb recv_ret this d =
     (case conns d this of
        None \<Rightarrow> Inl Use_after_free
      | Some c \<Rightarrow>
          (case recv_ret of
             None \<Rightarrow> Inl Length_error
           | Some buf \<Rightarrow>
               if length buf = 0 then Inr (False, d)
               else if receivedData c = [] \<and> dataCompleteCallback cb buf
               then Inr (True, dataCallback cb buf this d)
               else
                 let d = upd_conn this (\<lambda>c. c\<lparr>receivedData := receivedData c @ buf\<rparr>) d;
                     received = receivedData c @ buf
                 in if dataCompleteCallback cb received
                    then Inr (True, upd_conn this (\<lambda>c. c\<lparr>receivedData := []\<rparr>) (dataCallback cb received this d))
                    else Inr (True, d)))"

text \<open>
  \<open>send\<close> is a function of the descriptor and the data: the number of bytes it takes, or \<open>-1\<close>. The
  argument \<open>&data[0]\<close> reads behind the end of the vector if there is no data.
\<close>

definition sendDataToSocket :: "(nat \<Rightarrow> bytes \<Rightarrow> int) \<Rightarrow> nat \<Rightarrow> 'u server \<Rightarrow> 'u server res" where
  "sendDataToSocket send this d =
     (case conns d this of
        None \<Rightarrow> Inl Use_after_free
      | Some c \<Rightarrow>
          let data = dataToSend c;
              d = upd_conn this (\<lambda>c. c\<lparr>dataToSend := []\<rparr>) d
          in if data = [] then Inl Out_of_bounds
             else
               let ret = send (c_fd c) data
               in Inr (d\<lparr>wire := wire d @ [(c_fd c, take (nat ret) data)]\<rparr>))"

section \<open>The event loop\<close>

record io =
  select_ret :: "(nat set \<times> nat set) option"
  accept_ret :: int
  recv_ret :: "nat \<Rightarrow> bytes option"
  send_ret :: "nat \<Rightarrow> bytes \<Rightarrow> int"

datatype 'u polled = Return_false "'u server" | Go_on "'u server"

text \<open>\<open>_d->clientSockets[i]\<close>\<close>

definition lookup_insert :: "nat \<Rightarrow> 'u server \<Rightarrow> nat option \<times> 'u server" where
  "lookup_insert i d =
     (case clientSockets d i of
        Some conn \<Rightarrow> (conn, d)
      | None \<Rightarrow> (None, d\<lparr>clientSockets := (clientSockets d)(i \<mapsto> None)\<rparr>))"

text \<open>\<open>FD_SET\<close> of a descriptor that is too large writes behind the set.\<close>

definition accept_connection :: "'u callbacks \<Rightarrow> int \<Rightarrow> 'u server \<Rightarrow> 'u polled res" where
  "accept_connection cb newConn d =
     (if newConn < 0 then Inr (Return_false d)
      else if int FD_SETSIZE \<le> newConn then Inl Out_of_bounds
      else
        let fd = nat newConn; p = next_conn d;
            d = d\<lparr>active_fd_set := insert fd (active_fd_set d),
                  conns := (conns d)(p \<mapsto> \<lparr>c_fd = fd, receivedData = [], dataToSend = []\<rparr>),
                  next_conn := p + 1, clientSockets := (clientSockets d)(fd \<mapsto> Some p)\<rparr>
        in Inr (Go_on (clientStateChangedCallback cb (Some p) Connected d)))"

text \<open>The end of a connection: the two \<open>erase\<close>, the callback, and \<open>delete\<close> with \<open>FD_CLR\<close>.\<close>

definition erase_connection :: "nat \<Rightarrow> nat \<Rightarrow> 'u server \<Rightarrow> 'u server" where
  "erase_connection i conn d =
     d\<lparr>writingSockets := writingSockets d - {conn}, clientSockets := (clientSockets d)(i := None)\<rparr>"

definition delete_connection :: "nat \<Rightarrow> nat \<Rightarrow> 'u server \<Rightarrow> 'u server" where
  "delete_connection i conn d = d\<lparr>conns := (conns d)(conn := None), active_fd_set := active_fd_set d - {i}\<rparr>"

definition disconnect :: "'u callbacks \<Rightarrow> nat \<Rightarrow> nat \<Rightarrow> 'u server \<Rightarrow> 'u server" where
  "disconnect cb i conn d =
     delete_connection i conn (clientStateChangedCallback cb (Some conn) Disconnected (erase_connection i conn d))"

lemmas disconnect_steps = disconnect_def erase_connection_def delete_connection_def

definition serve_read :: "'u callbacks \<Rightarrow> io \<Rightarrow> nat \<Rightarrow> 'u server \<Rightarrow> (bool \<times> 'u polled) res" where
  "serve_read cb env i d =
     (if int i = listenSocket d then res_bind (accept_connection cb (accept_ret env) d) (\<lambda>r. Inr (False, r))
      else
        let (conn, d) = lookup_insert i d
        in case conn of
             None \<Rightarrow> Inr (False, Go_on d)
           | Some p \<Rightarrow>
               res_bind (receiveDataFromSocket cb (recv_ret env i) p d) (\<lambda>(alive, d).
                 if \<not> alive then Inr (True, Go_on (disconnect cb i p d)) else Inr (False, Go_on d)))"

definition serve_write :: "io \<Rightarrow> nat \<Rightarrow> 'u server \<Rightarrow> 'u server res" where
  "serve_write env i d =
     (let (conn, d) = lookup_insert i d
      in case conn of None \<Rightarrow> Inr d | Some p \<Rightarrow> sendDataToSocket (send_ret env) p d)"

definition serve ::
  "'u callbacks \<Rightarrow> io \<Rightarrow> nat set \<Rightarrow> nat set \<Rightarrow> nat \<Rightarrow> 'u server \<Rightarrow> 'u polled res" where
  "serve cb env read_fd_set write_fd_set i d =
     res_bind (if i \<in> read_fd_set then serve_read cb env i d else Inr (False, Go_on d)) (\<lambda>(deleteSocket, r).
       case r of
         Return_false d \<Rightarrow> Inr (Return_false d)
       | Go_on d \<Rightarrow>
           res_bind (if i \<in> write_fd_set then serve_write env i d else Inr d) (\<lambda>d.
             Inr (Go_on (if deleteSocket then d\<lparr>closed := closed d @ [i]\<rparr> else d))))"

fun serve_all ::
  "'u callbacks \<Rightarrow> io \<Rightarrow> nat set \<Rightarrow> nat set \<Rightarrow> nat list \<Rightarrow> 'u server \<Rightarrow> 'u polled res" where
  "serve_all cb env rd wr [] d = Inr (Go_on d)"
| "serve_all cb env rd wr (i # is) d =
     res_bind (serve cb env rd wr i d) (\<lambda>r.
       case r of Return_false d \<Rightarrow> Inr (Return_false d) | Go_on d \<Rightarrow> serve_all cb env rd wr is d)"

text \<open>
  What \<open>select\<close> is asked for, and one round of the loop: \<open>select_ret\<close> are the descriptors that are
  ready to be read and written, and \<open>select\<close> leaves those of them in its sets that were asked for.
  Other threads call \<open>sendData\<close> between the rounds.
\<close>

definition requested_writes :: "'u server \<Rightarrow> nat set" where
  "requested_writes d = (\<lambda>p. c_fd (the (conns d p))) ` writingSockets d"

definition poll_round :: "'u callbacks \<Rightarrow> io \<Rightarrow> 'u server \<Rightarrow> 'u polled res" where
  "poll_round cb env d =
     (let connectionsToWrite = writingSockets d;
          write_fd_set = requested_writes d;
          d = d\<lparr>writingSockets := {}\<rparr>
      in if \<exists>p\<in>connectionsToWrite. conns d p = None then Inl Use_after_free
         else case select_ret env of
                None \<Rightarrow> Inr (Return_false d)
              | Some (rd, wr) \<Rightarrow>
                  serve_all cb env (active_fd_set d \<inter> rd) (write_fd_set \<inter> wr) [0..<FD_SETSIZE] d)"

text \<open>Before the loop the listening socket is made active; the loop ends only by returning false.\<close>

fun poll_rounds :: "'u callbacks \<Rightarrow> io list \<Rightarrow> 'u server \<Rightarrow> 'u polled res" where
  "poll_rounds cb [] d = Inr (Go_on d)"
| "poll_rounds cb (env # envs) d =
     res_bind (poll_round cb env d) (\<lambda>r.
       case r of Return_false d \<Rightarrow> Inr (Return_false d) | Go_on d \<Rightarrow> poll_rounds cb envs d)"

definition Server_poll :: "'u callbacks \<Rightarrow> io list \<Rightarrow> 'u server \<Rightarrow> 'u polled res" where
  "Server_poll cb envs d = poll_rounds cb envs (d\<lparr>active_fd_set := {nat (listenSocket d)}\<rparr>)"

section \<open>Receiving\<close>

text \<open>The bytes of several reads of one connection, with a callback that records what it is given.\<close>

definition record_data :: "bytes \<Rightarrow> nat \<Rightarrow> (bytes \<times> nat) list server \<Rightarrow> (bytes \<times> nat) list server" where
  "record_data dat p d = d\<lparr>user := user d @ [(dat, p)]\<rparr>"

fun receive_all :: "'u callbacks \<Rightarrow> nat \<Rightarrow> bytes list \<Rightarrow> 'u server \<Rightarrow> 'u server res" where
  "receive_all cb p [] d = Inr d"
| "receive_all cb p (buf # bufs) d =
     res_bind (receiveDataFromSocket cb (Some buf) p d) (\<lambda>(_, d). receive_all cb p bufs d)"

lemma conns_upd_conn: "conns d p = Some c \<Longrightarrow> conns (upd_conn p f d) = (conns d)(p \<mapsto> f c)"
  by (simp add: upd_conn_def)

lemma user_upd_conn [simp]: "user (upd_conn p f d) = user d"
  by (simp add: upd_conn_def split: option.split)

lemma receive_one:
  assumes "conns d p = Some c" and "buf \<noteq> []" and "dataCallback cb = record_data"
  shows "\<exists>d' c'. receiveDataFromSocket cb (Some buf) p d = Inr (True, d') \<and> conns d' p = Some c' \<and>
    (if dataCompleteCallback cb (receivedData c @ buf)
     then user d' = user d @ [(receivedData c @ buf, p)] \<and> receivedData c' = []
     else user d' = user d \<and> receivedData c' = receivedData c @ buf)"
  using assms
  by (cases "receivedData c = []")
    (auto simp: receiveDataFromSocket_def conns_upd_conn record_data_def Let_def)

lemma receive_all_stream:
  assumes "conns d p = Some c" and "\<forall>buf\<in>set bufs. buf \<noteq> []" and "dataCallback cb = record_data"
    and "receivedData c \<noteq> [] \<longrightarrow> \<not> dataCompleteCallback cb (receivedData c)"
  shows "\<exists>d' c' ms. receive_all cb p bufs d = Inr d' \<and> conns d' p = Some c' \<and>
    user d' = user d @ map (\<lambda>m. (m, p)) ms \<and> concat ms @ receivedData c' = receivedData c @ concat bufs \<and>
    (\<forall>m\<in>set ms. dataCompleteCallback cb m) \<and>
    (receivedData c' \<noteq> [] \<longrightarrow> \<not> dataCompleteCallback cb (receivedData c'))"
  using assms
proof (induction bufs arbitrary: d c)
  case Nil
  then show ?case by (intro exI [of _ d] exI [of _ c] exI [of _ "[]"]) simp
next
  case (Cons buf bufs)
  let ?r = "receivedData c @ buf"
  obtain d1 c1 where one: "receiveDataFromSocket cb (Some buf) p d = Inr (True, d1)" "conns d1 p = Some c1"
    "if dataCompleteCallback cb ?r then user d1 = user d @ [(?r, p)] \<and> receivedData c1 = []
     else user d1 = user d \<and> receivedData c1 = ?r"
    using receive_one [OF Cons.prems(1) _ Cons.prems(3), of buf] Cons.prems(2) by auto
  from Cons.IH [OF one(2)] Cons.prems(2,3) one(3) obtain d' c' ms where
    rest: "receive_all cb p bufs d1 = Inr d'" "conns d' p = Some c'" "user d' = user d1 @ map (\<lambda>m. (m, p)) ms"
      "concat ms @ receivedData c' = receivedData c1 @ concat bufs" "\<forall>m\<in>set ms. dataCompleteCallback cb m"
      "receivedData c' \<noteq> [] \<longrightarrow> \<not> dataCompleteCallback cb (receivedData c')"
    by (auto split: if_splits)
  show ?case
    using one rest
    by (intro exI [of _ d'] exI [of _ c'] exI [of _ "(if dataCompleteCallback cb ?r then [?r] else []) @ ms"])
      (auto split: if_splits)
qed

section \<open>Rounds of the loop\<close>

lemma serve_idle: "i \<notin> rd \<Longrightarrow> i \<notin> wr \<Longrightarrow> serve cb env rd wr i d = Inr (Go_on d)"
  by (simp add: serve_def)

lemma serve_all_idle:
  "\<forall>i\<in>set is. i \<notin> rd \<and> i \<notin> wr \<Longrightarrow> serve_all cb env rd wr is d = Inr (Go_on d)"
  by (induction "is") (simp_all add: serve_idle)

lemma serve_all_append:
  "serve_all cb env rd wr (is @ js) d =
     res_bind (serve_all cb env rd wr is d) (\<lambda>r.
       case r of Return_false d \<Rightarrow> Inr (Return_false d) | Go_on d \<Rightarrow> serve_all cb env rd wr js d)"
proof (induction "is" arbitrary: d)
  case (Cons i "is")
  show ?case
  proof (cases "serve cb env rd wr i d")
    case (Inr r)
    with Cons show ?thesis by (cases r) auto
  qed simp
qed simp

text \<open>Callbacks that only observe.\<close>

definition observer :: "'u callbacks \<Rightarrow> bool" where
  "observer cb \<longleftrightarrow> (\<forall>x p d. \<exists>u. dataCallback cb x p d = d\<lparr>user := u\<rparr>) \<and>
     (\<forall>p s d. \<exists>u. clientStateChangedCallback cb p s d = d\<lparr>user := u\<rparr>)"

text \<open>A connection that waits for its turn: it is open, not marked for writing, and only found by its descriptor.\<close>

definition waiting :: "nat \<Rightarrow> connection \<Rightarrow> 'u server \<Rightarrow> bool" where
  "waiting p c d \<longleftrightarrow> conns d p = Some c \<and> p \<notin> writingSockets d \<and> p < next_conn d \<and>
     (\<forall>i. clientSockets d i = Some (Some p) \<longrightarrow> i = c_fd c)"

lemma waiting_user [simp]: "waiting p c (d\<lparr>user := u\<rparr>) = waiting p c d"
  by (simp add: waiting_def)

lemma waiting_callback:
  assumes "observer cb"
  shows "waiting p c (dataCallback cb x q d) = waiting p c d"
    "waiting p c (clientStateChangedCallback cb conn st d) = waiting p c d"
  using assms unfolding observer_def by (metis waiting_user)+

lemma waiting_upd_conn: "waiting p c d \<Longrightarrow> q \<noteq> p \<Longrightarrow> waiting p c (upd_conn q f d)"
  by (simp add: waiting_def upd_conn_def split: option.split)

lemma waiting_lookup:
  assumes "waiting p c d" and "lookup_insert i d = (conn, d')" and "i \<noteq> c_fd c"
  shows "waiting p c d'" "conn \<noteq> Some p"
  using assms by (auto simp: lookup_insert_def waiting_def split: option.splits if_splits)

lemma waiting_receive:
  assumes "waiting p c d" and "observer cb" and "q \<noteq> p" and "receiveDataFromSocket cb r q d = Inr (b, d')"
  shows "waiting p c d'"
  using assms(4) assms(1,3)
  by (auto simp: receiveDataFromSocket_def Let_def waiting_upd_conn waiting_callback [OF assms(2)]
      split: option.splits if_splits)

lemma waiting_serve_read:
  assumes "waiting p c d" and "observer cb" and "i \<noteq> c_fd c" and "serve_read cb env i d = Inr (b, Go_on d')"
  shows "waiting p c d'"
proof (cases "int i = listenSocket d")
  case True
  obtain fd where "d' = clientStateChangedCallback cb (Some (next_conn d)) Connected
      (d\<lparr>active_fd_set := insert fd (active_fd_set d),
        conns := (conns d)(next_conn d \<mapsto> \<lparr>c_fd = fd, receivedData = [], dataToSend = []\<rparr>),
        next_conn := next_conn d + 1, clientSockets := (clientSockets d)(fd \<mapsto> Some (next_conn d))\<rparr>)"
    using assms(4) True by (auto simp: serve_read_def accept_connection_def Let_def split: if_splits)
  with assms(1) show ?thesis by (simp add: waiting_callback [OF assms(2)]) (auto simp: waiting_def)
next
  case False
  obtain conn d1 where l: "lookup_insert i d = (conn, d1)" by fastforce
  note w = waiting_lookup [OF assms(1) l assms(3)]
  show ?thesis
  proof (cases conn)
    case None
    with assms(4) False l w show ?thesis by (simp add: serve_read_def)
  next
    case (Some q)
    with assms(4) False l obtain alive d2 where r1: "receiveDataFromSocket cb (recv_ret env i) q d1 = Inr (alive, d2)"
      by (auto simp: serve_read_def)
    with assms(4) False l Some have r2: "d' = (if alive then d2 else disconnect cb i q d2)"
      by (cases alive) (auto simp: serve_read_def)
    have w2: "waiting p c d2" using waiting_receive [OF w(1) assms(2) _ r1] w(2) Some by auto
    let ?e = "clientStateChangedCallback cb (Some q) Disconnected
        (d2\<lparr>writingSockets := writingSockets d2 - {q}, clientSockets := (clientSockets d2)(i := None)\<rparr>)"
    have "waiting p c ?e"
      using w2 by (simp add: waiting_callback [OF assms(2)]) (auto simp: waiting_def split: if_splits)
    then have "waiting p c (disconnect cb i q d2)"
      using w(2) Some by (auto simp: disconnect_steps Let_def waiting_def)
    with w2 r2 show ?thesis by simp
  qed
qed

lemma polled_case_Go_on:
  "(case r of Return_false d \<Rightarrow> Inr (Return_false d) | Go_on d \<Rightarrow> f d) = Inr (Go_on d') \<longleftrightarrow>
     (\<exists>e. r = Go_on e \<and> f e = Inr (Go_on d'))"
  by (cases r) auto

lemma waiting_serve:
  assumes "waiting p c d" and "observer cb" and "i \<noteq> c_fd c" and "serve cb env rd wr i d = Inr (Go_on d')"
  shows "waiting p c d'"
proof -
  from assms(4) obtain b d1 where r: "(if i \<in> rd then serve_read cb env i d else Inr (False, Go_on d)) = Inr (b, Go_on d1)"
    and s: "res_bind (if i \<in> wr then serve_write env i d1 else Inr d1) (\<lambda>d.
      Inr (Go_on (if b then d\<lparr>closed := closed d @ [i]\<rparr> else d))) = Inr (Go_on d')"
    by (auto simp: serve_def polled_case_Go_on)
  have w1: "waiting p c d1"
    using r assms(1) waiting_serve_read [OF assms(1-3)] by (auto split: if_splits)
  obtain d2 where d2: "(if i \<in> wr then serve_write env i d1 else Inr d1) = Inr d2"
    "d' = (if b then d2\<lparr>closed := closed d2 @ [i]\<rparr> else d2)"
    using s by auto
  have "waiting p c d2"
  proof (cases "i \<in> wr")
    case True
    obtain conn d3 where l: "lookup_insert i d1 = (conn, d3)" by fastforce
    note w = waiting_lookup [OF w1 l assms(3)]
    show ?thesis
      using True d2(1) l w
      by (auto simp: serve_write_def sendDataToSocket_def Let_def split: option.splits if_splits)
        (auto simp: waiting_def upd_conn_def split: option.splits)
  qed (use d2 w1 in simp)
  then show ?thesis using d2(2) by (auto simp: waiting_def)
qed

lemma waiting_serve_all:
  assumes "waiting p c d" and "observer cb" and "c_fd c \<notin> rd" and "c_fd c \<notin> wr"
    and "serve_all cb env rd wr is d = Inr (Go_on d')"
  shows "waiting p c d'"
  using assms(1,5)
proof (induction "is" arbitrary: d)
  case (Cons i "is")
  then obtain d1 where d1: "serve cb env rd wr i d = Inr (Go_on d1)" "serve_all cb env rd wr is d1 = Inr (Go_on d')"
    by (auto simp: polled_case_Go_on)
  have "waiting p c d1"
  proof (cases "i = c_fd c")
    case True
    with assms(3,4) d1(1) Cons.prems(1) show ?thesis by (simp add: serve_idle)
  qed (use waiting_serve [OF Cons.prems(1) assms(2) _ d1(1)] in simp)
  with Cons.IH d1(2) show ?case by blast
qed simp

text \<open>
  The descriptor \<open>fd\<close> is that of the connection \<open>p\<close>, and \<open>W\<close> is what was sent on it; every entry of the
  table stands under the descriptor of its connection.
\<close>

definition untouched :: "nat \<Rightarrow> nat \<Rightarrow> (nat \<times> bytes) list \<Rightarrow> 'u server \<Rightarrow> bool" where
  "untouched fd p W d \<longleftrightarrow> clientSockets d fd = Some (Some p) \<and> filter (\<lambda>x. fst x = fd) (wire d) = W \<and>
     (\<forall>i q. clientSockets d i = Some (Some q) \<longrightarrow> q < next_conn d \<and> (\<forall>c. conns d q = Some c \<longrightarrow> c_fd c = i))"

lemma untouched_user [simp]: "untouched fd p W (d\<lparr>user := u\<rparr>) = untouched fd p W d"
  by (simp add: untouched_def)

lemma untouched_callback:
  assumes "observer cb"
  shows "untouched fd p W (dataCallback cb x q d) = untouched fd p W d"
    "untouched fd p W (clientStateChangedCallback cb conn st d) = untouched fd p W d"
  using assms unfolding observer_def by (metis untouched_user)+

lemma untouched_upd_conn: "untouched fd p W d \<Longrightarrow> (\<And>c. c_fd (f c) = c_fd c) \<Longrightarrow> untouched fd p W (upd_conn q f d)"
  by (auto simp: untouched_def upd_conn_def split: option.split)

lemma untouched_lookup:
  assumes "untouched fd p W d" and "lookup_insert i d = (conn, d')"
  shows "untouched fd p W d'" "conn = Some q \<Longrightarrow> clientSockets d' i = Some (Some q)"
  using assms by (auto simp: lookup_insert_def untouched_def split: option.splits if_splits)

lemma untouched_receive:
  assumes "untouched fd p W d" and "observer cb" and "receiveDataFromSocket cb r q d = Inr (b, d')"
  shows "untouched fd p W d'"
  using assms(3,1)
  by (auto simp: receiveDataFromSocket_def Let_def untouched_upd_conn untouched_callback [OF assms(2)]
      split: option.splits if_splits)

lemma untouched_disconnect:
  assumes "untouched fd p W d" and "observer cb" and "i \<noteq> fd"
  shows "untouched fd p W (disconnect cb i q d)"
proof -
  let ?e = "clientStateChangedCallback cb (Some q) Disconnected
      (d\<lparr>writingSockets := writingSockets d - {q}, clientSockets := (clientSockets d)(i := None)\<rparr>)"
  have "untouched fd p W ?e"
    using assms(1,3) by (simp add: untouched_callback [OF assms(2)]) (auto simp: untouched_def)
  then show ?thesis by (auto simp: disconnect_steps Let_def untouched_def)
qed

lemma untouched_serve_read:
  assumes "untouched fd p W d" and "observer cb" and "i \<noteq> fd" and "accept_ret env \<noteq> int fd"
    and "serve_read cb env i d = Inr (b, Go_on d')"
  shows "untouched fd p W d'"
proof (cases "int i = listenSocket d")
  case True
  let ?n = "nat (accept_ret env)"
  have "\<not> accept_ret env < 0" "d' = clientStateChangedCallback cb (Some (next_conn d)) Connected
      (d\<lparr>active_fd_set := insert ?n (active_fd_set d),
        conns := (conns d)(next_conn d \<mapsto> \<lparr>c_fd = ?n, receivedData = [], dataToSend = []\<rparr>),
        next_conn := next_conn d + 1, clientSockets := (clientSockets d)(?n \<mapsto> Some (next_conn d))\<rparr>)"
    using assms(5) True by (auto simp: serve_read_def accept_connection_def Let_def split: if_splits)
  moreover from this(1) assms(4) have "?n \<noteq> fd" by auto
  ultimately show ?thesis
    using assms(1) by (simp add: untouched_callback [OF assms(2)]) (auto simp: untouched_def less_Suc_eq)
next
  case False
  obtain conn d1 where l: "lookup_insert i d = (conn, d1)" by fastforce
  note u = untouched_lookup [OF assms(1) l]
  show ?thesis
  proof (cases conn)
    case None
    with assms(5) False l u show ?thesis by (simp add: serve_read_def)
  next
    case (Some q)
    with assms(5) False l obtain alive d2 where r1: "receiveDataFromSocket cb (recv_ret env i) q d1 = Inr (alive, d2)"
      by (auto simp: serve_read_def)
    with assms(5) False l Some have "d' = (if alive then d2 else disconnect cb i q d2)"
      by (cases alive) (auto simp: serve_read_def)
    with untouched_receive [OF u(1) assms(2) r1] untouched_disconnect [OF _ assms(2,3)] show ?thesis by simp
  qed
qed

lemma untouched_serve_write:
  assumes "untouched fd p W d" and "i \<noteq> fd" and "serve_write env i d = Inr d'"
  shows "untouched fd p W d'"
proof -
  obtain conn d1 where l: "lookup_insert i d = (conn, d1)" by fastforce
  note u = untouched_lookup [OF assms(1) l]
  show ?thesis
  proof (cases conn)
    case None
    with assms(3) l u show ?thesis by (simp add: serve_write_def)
  next
    case (Some q)
    then obtain c where c: "conns d1 q = Some c"
      "d' = (upd_conn q (\<lambda>c. c\<lparr>dataToSend := []\<rparr>) d1)\<lparr>wire := wire (upd_conn q (\<lambda>c. c\<lparr>dataToSend := []\<rparr>) d1) @
        [(c_fd c, take (nat (send_ret env (c_fd c) (dataToSend c))) (dataToSend c))]\<rparr>"
      using assms(3) l by (auto simp: serve_write_def sendDataToSocket_def Let_def split: option.splits if_splits)
    have "c_fd c \<noteq> fd" using u(1) u(2) [OF Some] c(1) assms(2) by (auto simp: untouched_def)
    moreover have "untouched fd p W (upd_conn q (\<lambda>c. c\<lparr>dataToSend := []\<rparr>) d1)" by (rule untouched_upd_conn [OF u(1)]) simp
    ultimately show ?thesis unfolding c(2) by (auto simp: untouched_def)
  qed
qed

lemma untouched_serve:
  assumes "untouched fd p W d" and "observer cb" and "i \<noteq> fd" and "accept_ret env \<noteq> int fd"
    and "serve cb env rd wr i d = Inr (Go_on d')"
  shows "untouched fd p W d'"
proof -
  from assms(5) obtain b d1 d2 where r: "(if i \<in> rd then serve_read cb env i d else Inr (False, Go_on d)) = Inr (b, Go_on d1)"
    "(if i \<in> wr then serve_write env i d1 else Inr d1) = Inr d2" "d' = (if b then d2\<lparr>closed := closed d2 @ [i]\<rparr> else d2)"
    by (auto simp: serve_def polled_case_Go_on)
  have "untouched fd p W d1" using r(1) assms(1) untouched_serve_read [OF assms(1-4)] by (auto split: if_splits)
  with r(2) assms(3) have "untouched fd p W d2" by (auto split: if_splits intro: untouched_serve_write)
  with r(3) show ?thesis by (auto simp: untouched_def)
qed

text \<open>The service of the other descriptors changes neither the connection nor what was sent on it.\<close>

lemma others_served:
  assumes "waiting p c d" and "untouched (c_fd c) p W d" and "observer cb" and "accept_ret env \<noteq> int (c_fd c)"
    and "c_fd c \<notin> set is" and "serve_all cb env rd wr is d = Inr (Go_on d')"
  shows "waiting p c d' \<and> untouched (c_fd c) p W d'"
  using assms(1,2,5,6)
proof (induction "is" arbitrary: d)
  case (Cons i "is")
  then obtain d1 where d1: "serve cb env rd wr i d = Inr (Go_on d1)" "serve_all cb env rd wr is d1 = Inr (Go_on d')"
    by (auto simp: polled_case_Go_on)
  have i: "i \<noteq> c_fd c" "c_fd c \<notin> set is" using Cons.prems(3) by auto
  from Cons.IH [OF waiting_serve [OF Cons.prems(1) assms(3) i(1) d1(1)]
      untouched_serve [OF Cons.prems(2) assms(3) i(1) assms(4) d1(1)] i(2) d1(2)] show ?case .
qed simp

lemma upt_split: "fd < FD_SETSIZE \<Longrightarrow> [0..<FD_SETSIZE] = [0..<fd] @ fd # [Suc fd..<FD_SETSIZE]"
  using upt_add_eq_append [of 0 fd "FD_SETSIZE - fd"] by (simp add: upt_conv_Cons)

definition alive :: "'u server \<Rightarrow> bool" where
  "alive d \<longleftrightarrow> (\<forall>p\<in>writingSockets d. conns d p \<noteq> None)"

lemma poll_round_one:
  assumes "alive d" and "select_ret env = Some (ready_r, ready_w)"
    and "rd = active_fd_set d \<inter> ready_r" and "wr = requested_writes d \<inter> ready_w"
    and "rd \<union> wr = {fd}" and "fd < FD_SETSIZE"
  shows "poll_round cb env d = serve cb env rd wr fd (d\<lparr>writingSockets := {}\<rparr>)"
proof -
  have idle: "i \<notin> rd \<and> i \<notin> wr" if "i \<noteq> fd" for i using assms(5) that by blast
  have "serve_all cb env rd wr [0..<fd] d' = Inr (Go_on d')" for d'
    using idle by (intro serve_all_idle) auto
  moreover have "serve_all cb env rd wr [Suc fd..<FD_SETSIZE] d' = Inr (Go_on d')" for d'
    using idle by (intro serve_all_idle) auto
  ultimately show ?thesis
    using assms(1,2) unfolding alive_def
    by (cases "serve cb env rd wr fd (d\<lparr>writingSockets := {}\<rparr>)")
      (auto simp: poll_round_def Let_def upt_split [OF assms(6)] serve_all_append
        simp flip: assms(3,4) split: polled.split)
qed

section \<open>Properties\<close>

text \<open>
  C17 Receiving on plain sockets neither loses, repeats nor reorders a byte: however the peer's stream is
  cut into reads, the messages given to the data callback and what is still collected are, in
  order, exactly the bytes received; every message is one the completeness callback accepted, and
  what is collected is not yet complete.
\<close>

theorem server_receives_stream:
  assumes "conns d p = Some c" and "receivedData c = []" and "\<forall>buf\<in>set bufs. buf \<noteq> []"
    and "dataCallback cb = record_data"
  shows "\<exists>d' c' ms. receive_all cb p bufs d = Inr d' \<and> conns d' p = Some c' \<and>
    user d' = user d @ map (\<lambda>m. (m, p)) ms \<and> concat ms @ receivedData c' = concat bufs \<and>
    (\<forall>m\<in>set ms. dataCompleteCallback cb m) \<and>
    (receivedData c' \<noteq> [] \<longrightarrow> \<not> dataCompleteCallback cb (receivedData c'))"
  using receive_all_stream [OF assms(1,3,4)] assms(2) by simp

definition demo_server :: "(bytes \<times> nat) list server" where
  "demo_server = (Server [])\<lparr>conns := [0 \<mapsto> \<lparr>c_fd = 5, receivedData = [], dataToSend = ''xyz''\<rparr>],
     next_conn := 1, clientSockets := [5 \<mapsto> Some 0], writingSockets := {0}, active_fd_set := {5, 9}\<rparr>"

definition demo_cb :: "(bytes \<times> nat) list callbacks" where
  "demo_cb = \<lparr>dataCallback = record_data, dataCompleteCallback = (\<lambda>s. last s = CHR ''.''),
     clientStateChangedCallback = (\<lambda>p st d. d)\<rparr>"

lemma demo_alive: "alive demo_server"
  by (simp add: alive_def demo_server_def)

lemma demo_conn:
  "conns demo_server 0 = Some \<lparr>c_fd = 5, receivedData = [], dataToSend = ''xyz''\<rparr>"
  "dataCallback demo_cb = record_data"
  by (simp_all add: demo_server_def demo_cb_def Server_def)

theorem server_receives_stream_witness:
  "\<exists>d' c' ms. receive_all demo_cb 0 [''ab'', ''c.'', ''d''] demo_server = Inr d' \<and> conns d' 0 = Some c' \<and>
     user d' = user demo_server @ map (\<lambda>m. (m, 0)) ms \<and>
     concat ms @ receivedData c' = concat [''ab'', ''c.'', ''d'']"
proof -
  have c: "receivedData \<lparr>c_fd = 5, receivedData = [], dataToSend = ''xyz''\<rparr> = []"
    "\<forall>buf\<in>set [''ab'', ''c.'', ''d'']. buf \<noteq> []" by simp_all
  show ?thesis using server_receives_stream [OF demo_conn(1) c demo_conn(2)] by blast
qed

text \<open>
  A connection that has data to send but is not writable in a round of the loop is forgotten: the
  set of writing connections was emptied for the round and nobody puts it back, so its data stays
  in the buffer and no later round asks for it, until more data is sent.
\<close>

theorem unwritable_connection_forgotten:
  assumes "observer cb" and "conns d p = Some c" and "p \<in> writingSockets d" and "p < next_conn d"
    and "\<forall>i. clientSockets d i = Some (Some p) \<longrightarrow> i = c_fd c"
    and "select_ret env = Some (rd, wr)" and "c_fd c \<notin> rd" and "c_fd c \<notin> wr"
    and "poll_round cb env d = Inr (Go_on d')"
  shows "conns d' p = Some c \<and> p \<notin> writingSockets d'"
proof -
  have "waiting p c (d\<lparr>writingSockets := {}\<rparr>)" using assms(2,4,5) by (simp add: waiting_def)
  from waiting_serve_all [OF this assms(1), of "active_fd_set d \<inter> rd" "requested_writes d \<inter> wr"] assms(6-9)
  have "waiting p c d'" by (auto simp: poll_round_def Let_def split: if_splits)
  then show ?thesis by (simp add: waiting_def)
qed

definition demo_env :: "nat set \<Rightarrow> nat set \<Rightarrow> io" where
  "demo_env rd wr = \<lparr>select_ret = Some (rd, wr), accept_ret = 7, recv_ret = (\<lambda>_. None), send_ret = (\<lambda>_ _. 2)\<rparr>"

lemma demo_observer: "observer demo_cb"
proof -
  have "\<exists>u. d = d\<lparr>user := u\<rparr>" for d :: "(bytes \<times> nat) list server"
    by (rule exI [of _ "user d"]) simp
  then show ?thesis unfolding observer_def demo_cb_def record_data_def by auto
qed

theorem unwritable_connection_forgotten_witness:
  "\<exists>d'. poll_round demo_cb (demo_env {9} {}) demo_server = Inr (Go_on d') \<and>
     conns d' 0 = Some \<lparr>c_fd = 5, receivedData = [], dataToSend = ''xyz''\<rparr> \<and> 0 \<notin> writingSockets d'"
proof -
  have "poll_round demo_cb (demo_env {9} {}) demo_server =
      serve demo_cb (demo_env {9} {}) {9} {} 9 (demo_server\<lparr>writingSockets := {}\<rparr>)"
    by (rule poll_round_one [OF demo_alive]) (auto simp: demo_env_def FD_SETSIZE_def demo_server_def)
  then obtain d' where r: "poll_round demo_cb (demo_env {9} {}) demo_server = Inr (Go_on d')"
    by (simp add: serve_def serve_read_def lookup_insert_def demo_server_def Server_def NULLSOCKET_def)
  show ?thesis
    using r unwritable_connection_forgotten [OF demo_observer _ _ _ _ _ _ _ r, of 0
        "\<lparr>c_fd = 5, receivedData = [], dataToSend = ''xyz''\<rparr>" "{9}" "{}"]
    by (auto simp: demo_server_def Server_def demo_env_def)
qed

lemma conn_sendData_all:
  assumes "conns d p = Some c" and "datas \<noteq> []"
  shows "\<exists>d'. fold (conn_sendData p) datas d = d' \<and> conns d' = (conns d)(p \<mapsto> c\<lparr>dataToSend := dataToSend c @ concat datas\<rparr>) \<and>
    writingSockets d' = insert p (writingSockets d) \<and> clientSockets d' = clientSockets d \<and> wire d' = wire d \<and>
    active_fd_set d' = active_fd_set d \<and> next_conn d' = next_conn d"
  using assms
proof (induction datas arbitrary: d c)
  case (Cons x datas)
  let ?d = "conn_sendData p x d"
  have d: "conns ?d = (conns d)(p \<mapsto> c\<lparr>dataToSend := dataToSend c @ x\<rparr>)"
    "writingSockets ?d = insert p (writingSockets d)" "clientSockets ?d = clientSockets d" "wire ?d = wire d"
    "active_fd_set ?d = active_fd_set d" "next_conn ?d = next_conn d"
    using Cons.prems(1) by (simp_all add: conn_sendData_def sendData_append_def sendData_mark_def upd_conn_def)
  show ?case
  proof (cases "datas = []")
    case False
    with Cons.IH [of ?d "c\<lparr>dataToSend := dataToSend c @ x\<rparr>"] d show ?thesis
      by (simp add: fun_upd_upd fun_upd_same del: fun_upd_apply)
  qed (use d in \<open>simp del: fun_upd_apply\<close>)
qed simp

text \<open>The table of sockets and the live connections name each other; marked connections are live.\<close>

definition conns_ok :: "'u server \<Rightarrow> bool" where
  "conns_ok d \<longleftrightarrow>
     (\<forall>fd p. clientSockets d fd = Some (Some p) \<longrightarrow> (\<exists>c. conns d p = Some c \<and> c_fd c = fd)) \<and>
     (\<forall>p c. conns d p = Some c \<longrightarrow>
        clientSockets d (c_fd c) = Some (Some p) \<and> p < next_conn d \<and> c_fd c < FD_SETSIZE) \<and>
     writingSockets d \<subseteq> dom (conns d)"

lemma conns_ok_sendData:
  assumes "conns_ok d" and "conns d p = Some c" and "datas \<noteq> []"
  defines "d1 \<equiv> fold (conn_sendData p) datas d"
  shows "waiting p (c\<lparr>dataToSend := dataToSend c @ concat datas\<rparr>) (d1\<lparr>writingSockets := {}\<rparr>)"
    and "untouched (c_fd c) p (filter (\<lambda>x. fst x = c_fd c) (wire d)) (d1\<lparr>writingSockets := {}\<rparr>)"
    and "c_fd c \<in> requested_writes d1" and "alive d1" and "active_fd_set d1 = active_fd_set d"
proof -
  have d1: "conns d1 = (conns d)(p \<mapsto> c\<lparr>dataToSend := dataToSend c @ concat datas\<rparr>)"
    "writingSockets d1 = insert p (writingSockets d)" "clientSockets d1 = clientSockets d" "wire d1 = wire d"
    "active_fd_set d1 = active_fd_set d" "next_conn d1 = next_conn d"
    using conn_sendData_all [OF assms(2,3)] unfolding d1_def by blast+
  note ok = assms(1) [unfolded conns_ok_def]
  have "p < next_conn d" "clientSockets d (c_fd c) = Some (Some p)" using ok assms(2) by blast+
  moreover have fd: "i = c_fd c" if "clientSockets d i = Some (Some p)" for i
  proof -
    from that ok obtain c' where "conns d p = Some c'" "c_fd c' = i" by blast
    with assms(2) show ?thesis by simp
  qed
  ultimately show "waiting p (c\<lparr>dataToSend := dataToSend c @ concat datas\<rparr>) (d1\<lparr>writingSockets := {}\<rparr>)"
    by (auto simp: waiting_def d1)
  have "q < next_conn d \<and> (\<forall>c'. conns d1 q = Some c' \<longrightarrow> c_fd c' = i)" if "clientSockets d i = Some (Some q)" for i q
  proof -
    from that ok obtain c' where "conns d q = Some c'" "c_fd c' = i" by blast
    with ok assms(2) show ?thesis by (auto simp: d1)
  qed
  with \<open>clientSockets d (c_fd c) = Some (Some p)\<close>
  show "untouched (c_fd c) p (filter (\<lambda>x. fst x = c_fd c) (wire d)) (d1\<lparr>writingSockets := {}\<rparr>)"
    by (simp add: untouched_def d1(3,4,6))
  show "c_fd c \<in> requested_writes d1" by (auto simp: requested_writes_def d1 intro!: image_eqI [of _ _ p])
  show "alive d1" using ok by (auto simp: alive_def d1)
qed (use conn_sendData_all [OF assms(2,3)] in \<open>auto simp: d1_def\<close>)

text \<open>The service of the connection's own descriptor.\<close>

lemma own_served:
  assumes "waiting p c d" and "untouched (c_fd c) p W d" and "dataToSend c \<noteq> []" and "c_fd c \<notin> rd" and "c_fd c \<in> wr"
  obtains d' where "serve cb env rd wr (c_fd c) d = Inr (Go_on d')" and "waiting p (c\<lparr>dataToSend := []\<rparr>) d'"
    and "untouched (c_fd c) p
      (W @ [(c_fd c, take (nat (send_ret env (c_fd c) (dataToSend c))) (dataToSend c))]) d'"
proof -
  let ?u = "upd_conn p (\<lambda>c. c\<lparr>dataToSend := []\<rparr>) d"
  let ?d = "?u\<lparr>wire := wire ?u @ [(c_fd c, take (nat (send_ret env (c_fd c) (dataToSend c))) (dataToSend c))]\<rparr>"
  have c: "conns d p = Some c" "clientSockets d (c_fd c) = Some (Some p)"
    using assms(1,2) by (simp_all add: waiting_def untouched_def)
  have "serve cb env rd wr (c_fd c) d = Inr (Go_on ?d)"
    using assms(3-5) c by (simp add: serve_def serve_write_def lookup_insert_def sendDataToSocket_def Let_def)
  moreover have "waiting p (c\<lparr>dataToSend := []\<rparr>) ?d" using assms(1) c(1) by (simp add: waiting_def upd_conn_def)
  moreover have "untouched (c_fd c) p W ?u" by (rule untouched_upd_conn [OF assms(2)]) simp
  then have "untouched (c_fd c) p (W @ [(c_fd c, take (nat (send_ret env (c_fd c) (dataToSend c))) (dataToSend c))]) ?d"
    by (auto simp: untouched_def)
  ultimately show ?thesis by (rule that)
qed

text \<open>
  C38 What a connection is given to send goes out in order and once: all calls of \<open>sendData\<close> since the
  last write are sent, one behind the other, by one call of \<open>send\<close> in the round that begins next, if the
  socket is writable and not readable then, whatever other sockets are ready in that round; afterwards the
  buffer is empty and the connection not marked, so the bytes that this call does not take are lost. When no
  other socket is ready the round goes through. (A socket that is not writable in that round is the case of
  \<open>unwritable_connection_forgotten\<close>.)
\<close>

theorem sendData_sent_once:
  assumes "conns_ok d" and "observer cb" and "conns d p = Some c" and "datas \<noteq> []"
    and "dataToSend c @ concat datas \<noteq> []"
    and "select_ret env = Some (rd, wr)" and "c_fd c \<in> wr" and "c_fd c \<notin> rd"
    and "accept_ret env \<noteq> int (c_fd c)"
  shows "(\<forall>d'. poll_round cb env (fold (conn_sendData p) datas d) = Inr (Go_on d') \<longrightarrow>
      filter (\<lambda>x. fst x = c_fd c) (wire d') = filter (\<lambda>x. fst x = c_fd c) (wire d) @
        [(c_fd c, take (nat (send_ret env (c_fd c) (dataToSend c @ concat datas))) (dataToSend c @ concat datas))] \<and>
      conns d' p = Some (c\<lparr>dataToSend := []\<rparr>) \<and> p \<notin> writingSockets d') \<and>
    (active_fd_set d \<inter> rd = {} \<and> wr = {c_fd c} \<longrightarrow>
      (\<exists>d'. poll_round cb env (fold (conn_sendData p) datas d) = Inr (Go_on d')))"
proof -
  define d1 where "d1 = fold (conn_sendData p) datas d"
  let ?d = "d1\<lparr>writingSockets := {}\<rparr>" and ?c = "c\<lparr>dataToSend := dataToSend c @ concat datas\<rparr>"
  let ?W = "filter (\<lambda>x. fst x = c_fd c) (wire d)" and ?rd = "active_fd_set d \<inter> rd" and ?wr = "requested_writes d1 \<inter> wr"
  let ?all = "dataToSend c @ concat datas"
  note start = conns_ok_sendData [OF assms(1,3,4), folded d1_def]
  have fd: "c_fd c < FD_SETSIZE" using assms(1,3) by (auto simp: conns_ok_def)
  have round: "poll_round cb env d1 = serve_all cb env ?rd ?wr [0..<FD_SETSIZE] ?d"
    using start(4,5) assms(6) by (auto simp: poll_round_def Let_def alive_def)
  have own: "c_fd ?c \<notin> ?rd" "c_fd ?c \<in> ?wr" "dataToSend ?c \<noteq> []" using assms(5,7,8) start(3) by simp_all
  have "filter (\<lambda>x. fst x = c_fd c) (wire d') = ?W @ [(c_fd c, take (nat (send_ret env (c_fd c) ?all)) ?all)] \<and>
      conns d' p = Some (c\<lparr>dataToSend := []\<rparr>) \<and> p \<notin> writingSockets d'"
    if run: "poll_round cb env d1 = Inr (Go_on d')" for d'
  proof -
    from run [unfolded round upt_split [OF fd]] obtain e1 e2 where
      e1: "serve_all cb env ?rd ?wr [0..<c_fd c] ?d = Inr (Go_on e1)"
      and e2: "serve cb env ?rd ?wr (c_fd ?c) e1 = Inr (Go_on e2)"
      and e3: "serve_all cb env ?rd ?wr [Suc (c_fd c)..<FD_SETSIZE] e2 = Inr (Go_on d')"
      by (auto simp: serve_all_append polled_case_Go_on)
    have w1: "waiting p ?c e1 \<and> untouched (c_fd ?c) p ?W e1"
      by (rule others_served [OF start(1) _ assms(2) _ _ e1]) (use start(2) assms(9) in simp_all)
    obtain e2' where e2': "serve cb env ?rd ?wr (c_fd ?c) e1 = Inr (Go_on e2')" "waiting p (?c\<lparr>dataToSend := []\<rparr>) e2'"
      "untouched (c_fd ?c) p (?W @ [(c_fd ?c, take (nat (send_ret env (c_fd ?c) (dataToSend ?c))) (dataToSend ?c))]) e2'"
      using w1 own by (elim conjE) (rule own_served)
    have "e2' = e2" using e2 e2'(1) by simp
    have "waiting p (?c\<lparr>dataToSend := []\<rparr>) d' \<and> untouched (c_fd (?c\<lparr>dataToSend := []\<rparr>)) p
        (?W @ [(c_fd ?c, take (nat (send_ret env (c_fd ?c) (dataToSend ?c))) (dataToSend ?c))]) d'"
      by (rule others_served [OF e2'(2) _ assms(2) _ _ e3 [folded \<open>e2' = e2\<close>]]) (use e2'(3) assms(9) in simp_all)
    then show ?thesis by (simp add: waiting_def untouched_def)
  qed
  moreover have "\<exists>d'. poll_round cb env d1 = Inr (Go_on d')" if "?rd = {}" "wr = {c_fd c}"
  proof -
    have "?rd \<union> ?wr = {c_fd c}" using that start(3) by auto
    from poll_round_one [OF start(4) assms(6) _ refl this fd, of cb] start(5)
    have "poll_round cb env d1 = serve cb env ?rd ?wr (c_fd ?c) ?d" by simp
    then show ?thesis using own_served [OF start(1) _ own(3,1,2), of ?W cb env] start(2) by auto
  qed
  ultimately show ?thesis unfolding d1_def by blast
qed

lemma demo_conns_ok: "conns_ok demo_server"
  by (auto simp: conns_ok_def demo_server_def Server_def FD_SETSIZE_def split: if_splits)

theorem sendData_sent_once_witness:
  "\<exists>d'. poll_round demo_cb (demo_env {} {5}) (fold (conn_sendData 0) [''ab'', ''c''] demo_server) = Inr (Go_on d') \<and>
     filter (\<lambda>x. fst x = 5) (wire d') = [(5, ''xy'')] \<and> dataToSend (the (conns d' 0)) = []"
  using sendData_sent_once [OF demo_conns_ok demo_observer demo_conn(1), of "[''ab'', ''c'']" "demo_env {} {5}" "{}" "{5}"]
  by (auto simp: demo_server_def Server_def demo_env_def FD_SETSIZE_def)

text \<open>
  A connection that is marked when its buffer is empty: a thread that appends its data before another one marks the connection,
  and marks it itself after the round that has sent both, does this, and so does \<open>sendData\<close> of no data. The
  loop then takes the address of the first element of an empty vector.
\<close>

theorem empty_send_undefined:
  assumes "conns_ok d" and "conns d p = Some c" and "dataToSend c = []" and "select_ret env = Some ({}, {c_fd c})"
  shows "poll_round cb env (sendData_mark p d) = Inl Out_of_bounds"
proof -
  let ?d = "sendData_mark p d"
  have fd: "c_fd c < FD_SETSIZE" "clientSockets d (c_fd c) = Some (Some p)" using assms(1,2) by (auto simp: conns_ok_def)
  have "alive ?d" using assms(1,2) by (auto simp: alive_def conns_ok_def sendData_mark_def)
  moreover have "{} \<union> (requested_writes ?d \<inter> {c_fd c}) = {c_fd c}"
    using assms(2) by (auto simp: requested_writes_def sendData_mark_def)
  ultimately have "poll_round cb env ?d = serve cb env {} (requested_writes ?d \<inter> {c_fd c}) (c_fd c) (?d\<lparr>writingSockets := {}\<rparr>)"
    by (intro poll_round_one [OF _ assms(4) _ refl _ fd(1)]) simp_all
  moreover have "c_fd c \<in> requested_writes ?d" using assms(2) by (auto simp: requested_writes_def sendData_mark_def)
  ultimately show ?thesis
    using assms(2,3) fd(2)
    by (simp add: serve_def serve_write_def lookup_insert_def sendDataToSocket_def sendData_mark_def)
qed

text \<open>
  An error of \<open>recv\<close> ends the server: the read buffer is resized to \<open>-1\<close> elements and the
  exception leaves the event loop.
\<close>

theorem recv_error_throws:
  assumes "alive d" and "conns d p = Some c" and "clientSockets d (c_fd c) = Some (Some p)" and "c_fd c < FD_SETSIZE"
    and "int (c_fd c) \<noteq> listenSocket d" and "c_fd c \<in> active_fd_set d"
    and "select_ret env = Some ({c_fd c}, {})" and "recv_ret env (c_fd c) = None"
  shows "poll_round cb env d = Inl Length_error"
  using assms poll_round_one [OF assms(1,7) refl refl _ assms(4), of cb]
  by (simp add: serve_def serve_read_def lookup_insert_def receiveDataFromSocket_def)

theorem recv_error_throws_witness:
  "poll_round demo_cb (demo_env {5} {}) demo_server = Inl Length_error"
  using recv_error_throws [OF demo_alive demo_conn(1), of "demo_env {5} {}" demo_cb]
  by (simp add: demo_server_def Server_def demo_env_def FD_SETSIZE_def NULLSOCKET_def)

end
