(* ===== verification/ServerThreads.thy ===== *)
theory ServerThreads
  imports SocketServer
begin

text \<open>
  The event loop of \<open>Server::poll\<close> with other threads that call \<open>ClientConnection::sendData\<close>
  (\<open>lib/server.cpp\<close>, POSIX). What is atomic is what the mutexes make atomic, and stretches of the polling
  thread that touch nothing another thread uses: the section of \<open>sendData\<close> that appends the data,
  the section that marks the connection, the exchange of the set of marked connections at the beginning
  of a round, and, for each descriptor, the read with its callback, the removal of an ended
  connection from the two tables, the callback that reports its end, its deletion, and the write.
  Any order of such steps is a run. The two sections of one \<open>sendData\<close> may be far
  apart; \<open>sending\<close> are the connections whose data a thread has appended and not yet marked.
\<close>

section \<open>The steps\<close>

text \<open>
  Where the polling thread is in the service of a descriptor; \<open>Ending\<close> to \<open>Notified\<close> carry the local
  \<open>conn\<close>, and \<open>At_write\<close> carries \<open>deleteSocket\<close>.
\<close>

datatype stage =
    At_read
  | Ending nat       \<comment> \<open>\<open>recv\<close> has returned 0\<close>
  | Erased nat       \<comment> \<open>out of \<open>writingSockets\<close> and \<open>clientSockets\<close>\<close>
  | Notified nat     \<comment> \<open>the callback has returned\<close>
  | At_write bool

record 'u serving =
  srv :: "'u server"
  this_round :: "(io \<times> nat set \<times> nat set \<times> nat list \<times> stage) option"
  sending :: "nat list"
  returned :: bool

definition serving_new :: "'u server \<Rightarrow> 'u serving" where
  "serving_new d = \<lparr>srv = d, this_round = None, sending = [], returned = False\<rparr>"

datatype srv_event = Append nat bytes | Mark nat | Begin_round io | Serve_next

definition append_step :: "nat \<Rightarrow> bytes \<Rightarrow> 'u serving \<Rightarrow> 'u serving res" where
  "append_step p data s =
     (if conns (srv s) p = None then Inl Use_after_free
      else Inr (s\<lparr>srv := sendData_append p data (srv s), sending := p # sending s\<rparr>))"

definition mark_step :: "nat \<Rightarrow> 'u serving \<Rightarrow> 'u serving res" where
  "mark_step p s =
     (if conns (srv s) p = None then Inl Use_after_free
      else Inr (s\<lparr>srv := sendData_mark p (srv s), sending := remove1 p (sending s)\<rparr>))"

text \<open>
  The exchange of the set, the descriptors of its connections and the call of \<open>select\<close>; no step of
  another thread changes what this reads after the exchange.
\<close>

definition begin_round :: "io \<Rightarrow> 'u serving \<Rightarrow> 'u serving res" where
  "begin_round env s =
     (let connectionsToWrite = writingSockets (srv s);
          write_fd_set = requested_writes (srv s);
          d = (srv s)\<lparr>writingSockets := {}\<rparr>
      in if \<exists>p\<in>connectionsToWrite. conns d p = None then Inl Use_after_free
         else case select_ret env of
                None \<Rightarrow> Inr (s\<lparr>srv := d, returned := True\<rparr>)
              | Some (rd, wr) \<Rightarrow>
                  Inr (s\<lparr>srv := d,
                    this_round := Some (env, active_fd_set d \<inter> rd, write_fd_set \<inter> wr, [0..<FD_SETSIZE], At_read)\<rparr>))"

text \<open>
  A readable descriptor up to the result of \<open>receiveDataFromSocket\<close>: a new connection, or data, or the
  connection whose peer has closed.
\<close>

definition read_ready :: "'u callbacks \<Rightarrow> io \<Rightarrow> nat \<Rightarrow> 'u server \<Rightarrow> (nat option \<times> 'u polled) res" where
  "read_ready cb env i d =
     (if int i = listenSocket d then res_bind (accept_connection cb (accept_ret env) d) (\<lambda>r. Inr (None, r))
      else
        let (conn, d) = lookup_insert i d
        in case conn of
             None \<Rightarrow> Inr (None, Go_on d)
           | Some p \<Rightarrow>
               res_bind (receiveDataFromSocket cb (recv_ret env i) p d) (\<lambda>(alive, d).
                 Inr (if alive then None else Some p, Go_on d)))"

definition serve_next :: "'u callbacks \<Rightarrow> 'u serving \<Rightarrow> 'u serving res" where
  "serve_next cb s =
     (case this_round s of
        None \<Rightarrow> Inr s
      | Some (env, rd, wr, [], st) \<Rightarrow> Inr (s\<lparr>this_round := None\<rparr>)
      | Some (env, rd, wr, i # is, st) \<Rightarrow>
          (case st of
             At_read \<Rightarrow>
               if i \<in> rd then
                 res_bind (read_ready cb env i (srv s)) (\<lambda>(ended, r).
                   case r of
                     Return_false d \<Rightarrow> Inr (s\<lparr>srv := d, this_round := None, returned := True\<rparr>)
                   | Go_on d \<Rightarrow>
                       Inr (s\<lparr>srv := d, this_round := Some (env, rd, wr, i # is,
                         case ended of None \<Rightarrow> At_write False | Some p \<Rightarrow> Ending p)\<rparr>))
               else Inr (s\<lparr>this_round := Some (env, rd, wr, i # is, At_write False)\<rparr>)
           | Ending p \<Rightarrow>
               Inr (s\<lparr>srv := erase_connection i p (srv s), this_round := Some (env, rd, wr, i # is, Erased p)\<rparr>)
           | Erased p \<Rightarrow>
               Inr (s\<lparr>srv := clientStateChangedCallback cb (Some p) Disconnected (srv s),
                 this_round := Some (env, rd, wr, i # is, Notified p)\<rparr>)
           | Notified p \<Rightarrow>
               Inr (s\<lparr>srv := delete_connection i p (srv s), this_round := Some (env, rd, wr, i # is, At_write True)\<rparr>)
           | At_write deleteSocket \<Rightarrow>
               res_bind (if i \<in> wr then serve_write env i (srv s) else Inr (srv s)) (\<lambda>d.
                 Inr (s\<lparr>srv := (if deleteSocket then d\<lparr>closed := closed d @ [i]\<rparr> else d),
                   this_round := Some (env, rd, wr, is, At_read)\<rparr>))))"

definition srv_step :: "'u callbacks \<Rightarrow> srv_event \<Rightarrow> 'u serving \<Rightarrow> 'u serving res" where
  "srv_step cb ev s =
     (case ev of
        Append p data \<Rightarrow> append_step p data s
      | Mark p \<Rightarrow> mark_step p s
      | Begin_round env \<Rightarrow> begin_round env s
      | Serve_next \<Rightarrow> serve_next cb s)"

fun srv_run :: "'u callbacks \<Rightarrow> srv_event list \<Rightarrow> 'u serving \<Rightarrow> 'u serving res" where
  "srv_run cb [] s = Inr s"
| "srv_run cb (ev # evs) s = res_bind (srv_step cb ev s) (srv_run cb evs)"

section \<open>What the environment may do\<close>

text \<open>
  A thread begins a \<open>sendData\<close> only on a connection that is open and whose end the loop has not read
  (\<open>ending\<close>), and marks what it has appended to; \<open>accept\<close> does not return a descriptor that is in use; the end of a
  connection is not read while another thread is between the two sections of its \<open>sendData\<close>. The code enforces
  none of this, and the last section shows that it is needed.
\<close>

fun ending_in :: "stage \<Rightarrow> nat set" where
  "ending_in (Ending p) = {p}"
| "ending_in (Erased p) = {p}"
| "ending_in (Notified p) = {p}"
| "ending_in _ = {}"

fun erased_in :: "stage \<Rightarrow> nat set" where
  "erased_in (Erased p) = {p}"
| "erased_in (Notified p) = {p}"
| "erased_in _ = {}"

definition ending :: "'u serving \<Rightarrow> nat set" where
  "ending s = (case this_round s of None \<Rightarrow> {} | Some (env, rd, wr, is, st) \<Rightarrow> ending_in st)"

definition erased :: "'u serving \<Rightarrow> nat set" where
  "erased s = (case this_round s of None \<Rightarrow> {} | Some (env, rd, wr, is, st) \<Rightarrow> erased_in st)"

definition may_read :: "io \<Rightarrow> nat set \<Rightarrow> nat \<Rightarrow> 'u serving \<Rightarrow> bool" where
  "may_read env rd i s \<longleftrightarrow>
     \<not> (i \<in> rd \<and> int i = listenSocket (srv s) \<and>
        (case clientSockets (srv s) (nat (accept_ret env)) of Some (Some _) \<Rightarrow> True | _ \<Rightarrow> False)) \<and>
     \<not> (i \<in> rd \<and> recv_ret env i = Some [] \<and> (\<exists>p\<in>set (sending s). clientSockets (srv s) i = Some (Some p)))"

definition admissible :: "srv_event \<Rightarrow> 'u serving \<Rightarrow> bool" where
  "admissible ev s =
     (case ev of
        Append p data \<Rightarrow> conns (srv s) p \<noteq> None \<and> p \<notin> ending s
      | Mark p \<Rightarrow> p \<in> set (sending s)
      | Begin_round env \<Rightarrow> this_round s = None \<and> \<not> returned s
      | Serve_next \<Rightarrow>
          (case this_round s of
             None \<Rightarrow> False
           | Some (env, rd, wr, i # is, At_read) \<Rightarrow> may_read env rd i s
           | _ \<Rightarrow> True))"

text \<open>
  A callback may send data on connections that are open, but not on the one whose end it is told, and may
  change its own state.
\<close>

definition sends :: "nat set \<Rightarrow> 'u server \<Rightarrow> 'u server \<Rightarrow> bool" where
  "sends X d d' \<longleftrightarrow>
     (\<exists>xs u. (\<forall>(q, x)\<in>set xs. conns d q \<noteq> None \<and> q \<notin> X) \<and>
        d' = (fold (\<lambda>(q, x). conn_sendData q x) xs d)\<lparr>user := u\<rparr>)"

definition polite :: "'u callbacks \<Rightarrow> bool" where
  "polite cb \<longleftrightarrow>
     (\<forall>buf p d. sends {} d (dataCallback cb buf p d)) \<and>
     (\<forall>p d. sends {} d (clientStateChangedCallback cb (Some p) Connected d)) \<and>
     (\<forall>p d. sends {p} d (clientStateChangedCallback cb (Some p) Disconnected d))"

definition srv_begin :: "'u serving \<Rightarrow> bool" where
  "srv_begin s \<longleftrightarrow> (\<exists>u fd. s = serving_new ((Server u)\<lparr>listenSocket := fd, active_fd_set := {nat fd}\<rparr>))"

definition srv_moves :: "'u callbacks \<Rightarrow> 'u serving \<Rightarrow> 'u serving \<Rightarrow> bool" where
  "srv_moves cb s s' \<longleftrightarrow> polite cb \<and> (\<exists>ev. admissible ev s \<and> srv_step cb ev s = Inr s')"

text \<open>Runs in which every socket that \<open>select\<close> is asked to write to is writable.\<close>

definition writable :: "srv_event \<Rightarrow> 'u serving \<Rightarrow> bool" where
  "writable ev s =
     (case ev of
        Begin_round env \<Rightarrow> (case select_ret env of None \<Rightarrow> True | Some (_, wr) \<Rightarrow> requested_writes (srv s) \<subseteq> wr)
      | _ \<Rightarrow> True)"

definition srv_moves_writable :: "'u callbacks \<Rightarrow> 'u serving \<Rightarrow> 'u serving \<Rightarrow> bool" where
  "srv_moves_writable cb s s' \<longleftrightarrow>
     polite cb \<and> (\<exists>ev. admissible ev s \<and> writable ev s \<and> srv_step cb ev s = Inr s')"

section \<open>The invariant\<close>

text \<open>
  The table of sockets and the live connections name each other; marked connections are live.
  Data waits only on connections that are marked, about to be marked (\<open>W\<close>), or whose descriptor is
  still to be served in this round (\<open>R\<close>).
\<close>

definition steady :: "nat set \<Rightarrow> nat set \<Rightarrow> 'u server \<Rightarrow> bool" where
  "steady W R d \<longleftrightarrow> conns_ok d \<and> W \<subseteq> dom (conns d) \<and>
     (\<forall>p c. conns d p = Some c \<longrightarrow> dataToSend c \<noteq> [] \<longrightarrow> p \<in> writingSockets d \<or> p \<in> W \<or> c_fd c \<in> R)"

lemma steady_mono: "steady W R d \<Longrightarrow> R \<subseteq> R' \<Longrightarrow> steady W R' d"
  unfolding steady_def by blast

lemma steady_closed [simp]: "steady W R (d\<lparr>closed := x\<rparr>) = steady W R d"
  by (simp add: steady_def conns_ok_def)

lemma steady_wire [simp]: "steady W R (d\<lparr>wire := x\<rparr>) = steady W R d"
  by (simp add: steady_def conns_ok_def)

text \<open>What a callback that sends data can do to the server.\<close>

definition extends :: "nat set \<Rightarrow> 'u server \<Rightarrow> 'u server \<Rightarrow> bool" where
  "extends X d d' \<longleftrightarrow> clientSockets d' = clientSockets d \<and> next_conn d' = next_conn d \<and>
     writingSockets d \<subseteq> writingSockets d' \<and> writingSockets d' \<subseteq> writingSockets d \<union> (dom (conns d) - X) \<and>
     dom (conns d') = dom (conns d) \<and>
     (\<forall>p c'. conns d' p = Some c' \<longrightarrow> (\<exists>c. conns d p = Some c \<and> c_fd c' = c_fd c \<and>
        (dataToSend c' = dataToSend c \<or> p \<in> writingSockets d')))"

lemma extends_refl: "extends X d d"
  by (simp add: extends_def)

lemma extends_trans:
  assumes "extends X d e" and "extends X e f"
  shows "extends X d f"
proof -
  note d = assms(1) [unfolded extends_def] and e = assms(2) [unfolded extends_def]
  have "\<exists>c. conns d p = Some c \<and> c_fd c' = c_fd c \<and> (dataToSend c' = dataToSend c \<or> p \<in> writingSockets f)"
    if "conns f p = Some c'" for p c'
  proof -
    from that e obtain c1 where c1: "conns e p = Some c1" "c_fd c' = c_fd c1"
      "dataToSend c' = dataToSend c1 \<or> p \<in> writingSockets f" by blast
    from c1(1) d obtain c where "conns d p = Some c" "c_fd c1 = c_fd c"
      "dataToSend c1 = dataToSend c \<or> p \<in> writingSockets e" by blast
    with c1 e show ?thesis by auto
  qed
  moreover have "writingSockets f \<subseteq> writingSockets d \<union> (dom (conns d) - X)"
    using d e by blast
  ultimately show ?thesis unfolding extends_def using d e by auto
qed

lemma extends_sendData:
  assumes "conns d q \<noteq> None" and "q \<notin> X"
  shows "extends X d (conn_sendData q x d)"
  using assms by (auto simp: extends_def conn_sendData_def sendData_mark_def sendData_append_def upd_conn_def
      split: if_splits)

lemma extends_fold:
  assumes "\<forall>(q, x)\<in>set xs. conns d q \<noteq> None \<and> q \<notin> X"
  shows "extends X d (fold (\<lambda>(q, x). conn_sendData q x) xs d)"
  using assms
proof (induction xs arbitrary: d)
  case (Cons qx xs)
  obtain q x where qx: "qx = (q, x)" by fastforce
  have e: "extends X d (conn_sendData q x d)" using Cons.prems qx by (auto intro: extends_sendData)
  then have "dom (conns (conn_sendData q x d)) = dom (conns d)" by (simp add: extends_def)
  with Cons.prems have "\<forall>(q', x')\<in>set xs. conns (conn_sendData q x d) q' \<noteq> None \<and> q' \<notin> X"
    by (auto simp flip: domIff)
  from extends_trans [OF e Cons.IH [OF this]] qx show ?case by simp
qed (simp add: extends_refl)

lemma extends_sends: "sends X d d' \<Longrightarrow> extends X d d'"
  using extends_fold unfolding sends_def extends_def by fastforce

lemma steady_extends:
  assumes "steady W R d" and "extends X d d'"
  shows "steady W R d'"
proof -
  note e = assms(2) [unfolded extends_def] and s = assms(1) [unfolded steady_def conns_ok_def]
  have known: "clientSockets d' (c_fd c) = Some (Some p)" "p < next_conn d'" "c_fd c < FD_SETSIZE"
    if "conns d' p = Some c" for p c
  proof -
    from that e obtain c0 where c0: "conns d p = Some c0" "c_fd c = c_fd c0" by blast
    from c0(1) s have "clientSockets d (c_fd c0) = Some (Some p)" "p < next_conn d" "c_fd c0 < FD_SETSIZE" by simp_all
    with c0(2) e show "clientSockets d' (c_fd c) = Some (Some p)" "p < next_conn d'" "c_fd c < FD_SETSIZE" by simp_all
  qed
  have "conns_ok d'" unfolding conns_ok_def
  proof (intro conjI allI impI)
    fix fd p assume "clientSockets d' fd = Some (Some p)"
    with e s obtain c where c: "conns d p = Some c" "c_fd c = fd" by auto
    then have "p \<in> dom (conns d')" using e by auto
    with e c show "\<exists>c. conns d' p = Some c \<and> c_fd c = fd" by fastforce
  next
    have "writingSockets d' \<subseteq> writingSockets d \<union> (dom (conns d) - X)" "dom (conns d') = dom (conns d)"
      "writingSockets d \<subseteq> dom (conns d)" using e s by simp_all
    then show "writingSockets d' \<subseteq> dom (conns d')" by (simp only:) fast
  qed (simp_all add: known)
  moreover have "W \<subseteq> dom (conns d')" using e s by simp
  moreover have "p \<in> writingSockets d' \<or> p \<in> W \<or> c_fd c \<in> R"
    if "conns d' p = Some c" "dataToSend c \<noteq> []" for p c
  proof -
    from that(1) e obtain c0 where c0: "conns d p = Some c0" "c_fd c = c_fd c0"
      "dataToSend c = dataToSend c0 \<or> p \<in> writingSockets d'" by blast
    have "p \<in> writingSockets d \<or> p \<in> W \<or> c_fd c0 \<in> R" if "dataToSend c0 \<noteq> []"
      using s c0(1) that by blast
    with c0 that(2) e show ?thesis by auto
  qed
  ultimately show ?thesis unfolding steady_def by blast
qed


lemma steadyD:
  assumes "steady W R d"
  shows "clientSockets d fd = Some (Some p) \<Longrightarrow> \<exists>c. conns d p = Some c \<and> c_fd c = fd"
    "conns d p = Some c \<Longrightarrow> clientSockets d (c_fd c) = Some (Some p)"
    "conns d p = Some c \<Longrightarrow> p < next_conn d"
    "conns d p = Some c \<Longrightarrow> c_fd c < FD_SETSIZE"
    "p \<in> writingSockets d \<Longrightarrow> \<exists>c. conns d p = Some c"
    "p \<in> W \<Longrightarrow> \<exists>c. conns d p = Some c"
    "conns d p = Some c \<Longrightarrow> dataToSend c \<noteq> [] \<Longrightarrow> p \<in> writingSockets d \<or> p \<in> W \<or> c_fd c \<in> R"
  using assms unfolding steady_def conns_ok_def by auto

lemma steadyI:
  assumes "\<And>fd p. clientSockets d fd = Some (Some p) \<Longrightarrow> \<exists>c. conns d p = Some c \<and> c_fd c = fd"
    and "\<And>p c. conns d p = Some c \<Longrightarrow> clientSockets d (c_fd c) = Some (Some p) \<and> p < next_conn d \<and> c_fd c < FD_SETSIZE"
    and "\<And>p. p \<in> writingSockets d \<Longrightarrow> \<exists>c. conns d p = Some c"
    and "\<And>p. p \<in> W \<Longrightarrow> \<exists>c. conns d p = Some c"
    and "\<And>p c. conns d p = Some c \<Longrightarrow> dataToSend c \<noteq> [] \<Longrightarrow> p \<in> writingSockets d \<or> p \<in> W \<or> c_fd c \<in> R"
  shows "steady W R d"
  using assms unfolding steady_def conns_ok_def by (auto simp: subset_iff)

lemma steady_upd_conn:
  assumes "steady W R d" and "\<And>c. c_fd (f c) = c_fd c" and "\<And>c. dataToSend (f c) \<noteq> [] \<Longrightarrow> dataToSend c \<noteq> []"
  shows "steady W R (upd_conn p f d)"
proof (cases "conns d p")
  case (Some c0)
  show ?thesis
    by (rule steadyI) (use steadyD [OF assms(1)] assms(2,3) Some in \<open>fastforce simp: upd_conn_def split: if_splits\<close>)+
qed (simp add: upd_conn_def assms(1))

lemma steady_cleared:
  assumes "steady W R d" and "conns d p = Some c"
  shows "steady W (R - {c_fd c}) (upd_conn p (\<lambda>c. c\<lparr>dataToSend := []\<rparr>) d)"
proof -
  have other: "c_fd c' \<noteq> c_fd c" if "conns d q = Some c'" "q \<noteq> p" for q c'
    using steadyD(2) [OF assms(1) that(1)] steadyD(2) [OF assms] that(2) by auto
  have s: "steady W R (upd_conn p (\<lambda>c. c\<lparr>dataToSend := []\<rparr>) d)"
    by (rule steady_upd_conn [OF assms(1)]) simp_all
  show ?thesis
  proof (rule steadyI)
    fix q c'
    assume q: "conns (upd_conn p (\<lambda>c. c\<lparr>dataToSend := []\<rparr>) d) q = Some c'" "dataToSend c' \<noteq> []"
    then have "q \<noteq> p" "conns d q = Some c'" using assms(2) by (auto simp: upd_conn_def split: if_splits)
    with other steadyD(7) [OF s q]
    show "q \<in> writingSockets (upd_conn p (\<lambda>c. c\<lparr>dataToSend := []\<rparr>) d) \<or> q \<in> W \<or> c_fd c' \<in> R - {c_fd c}" by auto
  qed (use steadyD [OF s] in blast)+
qed

lemma steady_lookup:
  assumes "steady W R d" and "lookup_insert i d = (conn, d')"
  shows "steady W R d'" "conns d' = conns d" "clientSockets d' i = Some conn"
    "conn = None \<Longrightarrow> conns d p = Some c \<Longrightarrow> c_fd c \<noteq> i"
    "conn = Some p \<Longrightarrow> clientSockets d i = Some (Some p) \<and> (\<exists>c. conns d p = Some c \<and> c_fd c = i)"
proof -
  show "conns d' = conns d" "clientSockets d' i = Some conn"
    using assms(2) by (auto simp: lookup_insert_def split: option.splits)
  show "c_fd c \<noteq> i" if "conn = None" "conns d p = Some c"
    using steadyD(2) [OF assms(1) that(2)] assms(2) that(1) by (auto simp: lookup_insert_def split: option.splits)
  show "clientSockets d i = Some (Some p) \<and> (\<exists>c. conns d p = Some c \<and> c_fd c = i)" if "conn = Some p"
    using steadyD(1) [OF assms(1)] assms(2) that by (auto simp: lookup_insert_def split: option.splits)
  show "steady W R d'"
  proof (cases "clientSockets d i")
    case None
    then have d': "d' = d\<lparr>clientSockets := (clientSockets d)(i \<mapsto> None)\<rparr>"
      using assms(2) by (simp add: lookup_insert_def)
    show ?thesis unfolding d'
      by (rule steadyI) (use steadyD [OF assms(1)] None in \<open>auto split: if_splits\<close>)
  qed (use assms in \<open>simp add: lookup_insert_def\<close>)
qed

lemma polite_extends:
  assumes "polite cb"
  shows "extends {} d (dataCallback cb buf p d)"
    "extends {} d (clientStateChangedCallback cb (Some p) Connected d)"
    "extends {p} d (clientStateChangedCallback cb (Some p) Disconnected d)"
  using assms extends_sends unfolding polite_def by blast+

lemma steady_receive:
  assumes "steady W R d" and "polite cb" and "receiveDataFromSocket cb r p d = Inr (up, d')"
  shows "steady W R d'" "\<not> up \<Longrightarrow> d' = d \<and> r = Some []"
proof -
  let ?col = "\<lambda>buf. upd_conn p (\<lambda>c. c\<lparr>receivedData := receivedData c @ buf\<rparr>) d"
  have col: "steady W R (?col buf)" for buf
    by (rule steady_upd_conn [OF assms(1)]) simp_all
  have dc: "steady W R (dataCallback cb x q e)" if "steady W R e" for x q e
    using steady_extends [OF that polite_extends(1) [OF assms(2)]] .
  have cl: "steady W R (upd_conn p (\<lambda>c. c\<lparr>receivedData := []\<rparr>) e)" if "steady W R e" for e
    by (rule steady_upd_conn [OF that]) simp_all
  show "steady W R d'"
    using assms(1,3)
    by (auto simp: receiveDataFromSocket_def Let_def split: option.splits if_splits intro!: cl dc col)
  show "d' = d \<and> r = Some []" if "\<not> up"
    using assms(3) that by (auto simp: receiveDataFromSocket_def Let_def split: option.splits if_splits)
qed


text \<open>The server without a connection that is erased from its tables and not yet deleted.\<close>

definition hide :: "nat set \<Rightarrow> 'u server \<Rightarrow> 'u server" where
  "hide X d = d\<lparr>conns := (conns d) |` (- X)\<rparr>"

lemma hide_none [simp]: "hide {} d = d"
  by (simp add: hide_def restrict_map_def)

lemma hide_conns: "conns (hide X d) p = (if p \<in> X then None else conns d p)"
  by (simp add: hide_def restrict_map_def)

lemma hide_fields [simp]:
  "clientSockets (hide X d) = clientSockets d" "writingSockets (hide X d) = writingSockets d"
  "next_conn (hide X d) = next_conn d" "listenSocket (hide X d) = listenSocket d"
  by (simp_all add: hide_def)

lemma hide_sendData:
  "p \<notin> X \<Longrightarrow> hide X (sendData_append p data d) = sendData_append p data (hide X d)"
  "hide X (sendData_mark p d) = sendData_mark p (hide X d)"
proof -
  assume p: "p \<notin> X"
  have "(conns d)(p \<mapsto> c) |` (- X) = ((conns d) |` (- X))(p \<mapsto> c)" for c
    using p by (simp add: restrict_map_def fun_eq_iff)
  with p show "hide X (sendData_append p data d) = sendData_append p data (hide X d)"
    by (cases "conns d p") (simp_all add: hide_def sendData_append_def upd_conn_def restrict_in)
qed (simp add: hide_def sendData_mark_def)

lemma steady_erase:
  assumes "steady W R d" and "clientSockets d i = Some (Some p)" and "p \<notin> W"
  shows "steady W R (hide {p} (erase_connection i p d))"
proof -
  obtain c0 where c0: "conns d p = Some c0" "c_fd c0 = i" using steadyD(1) [OF assms(1,2)] by blast
  have fd: "c_fd c \<noteq> i" if "conns d q = Some c" "q \<noteq> p" for q c
    using steadyD(2) [OF assms(1) that(1)] assms(2) that(2) by auto
  let ?d = "hide {p} (erase_connection i p d)"
  have e: "conns ?d q = (if q = p then None else conns d q)" for q
    by (simp add: hide_conns erase_connection_def)
  show ?thesis
  proof (rule steadyI)
    fix fd q assume "clientSockets ?d fd = Some (Some q)"
    then have q: "clientSockets d fd = Some (Some q)" "fd \<noteq> i"
      by (auto simp: erase_connection_def split: if_splits)
    then obtain c where c: "conns d q = Some c" "c_fd c = fd" using steadyD(1) [OF assms(1)] by blast
    with q c0 show "\<exists>c. conns ?d q = Some c \<and> c_fd c = fd" by (auto simp: e)
  next
    fix q c assume "conns ?d q = Some c"
    then have q: "conns d q = Some c" "q \<noteq> p" by (auto simp: e split: if_splits)
    show "clientSockets ?d (c_fd c) = Some (Some q) \<and> q < next_conn ?d \<and> c_fd c < FD_SETSIZE"
      using steadyD(2-4) [OF assms(1) q(1)] fd [OF q] by (simp add: erase_connection_def)
    show "q \<in> writingSockets ?d \<or> q \<in> W \<or> c_fd c \<in> R" if "dataToSend c \<noteq> []"
      using steadyD(7) [OF assms(1) q(1) that] q(2) by (auto simp: erase_connection_def)
  next
    fix q assume "q \<in> writingSockets ?d"
    then show "\<exists>c. conns ?d q = Some c"
      using steadyD(5) [OF assms(1), of q] unfolding e by (simp add: erase_connection_def)
  next
    fix q assume "q \<in> W"
    then show "\<exists>c. conns ?d q = Some c" using steadyD(6) [OF assms(1), of q] assms(3) unfolding e by auto
  qed
qed

lemma extends_hide:
  assumes "extends X d d'"
  shows "extends {} (hide X d) (hide X d')"
proof -
  note e = assms [unfolded extends_def]
  have dom: "dom (conns (hide X f)) = dom (conns f) - X" for f :: "'u server"
    by (auto simp: hide_def)
  have "writingSockets d' \<subseteq> writingSockets d \<union> (dom (conns d) - X)" "dom (conns d') = dom (conns d)" using e by simp_all
  then have "writingSockets (hide X d') \<subseteq> writingSockets (hide X d) \<union> (dom (conns (hide X d)) - {})"
    "dom (conns (hide X d')) = dom (conns (hide X d))" by (simp_all add: dom)
  moreover have "\<exists>c. conns (hide X d) p = Some c \<and> c_fd c' = c_fd c \<and> (dataToSend c' = dataToSend c \<or> p \<in> writingSockets d')"
    if "conns (hide X d') p = Some c'" for p c'
  proof -
    from that have p: "p \<notin> X" "conns d' p = Some c'" by (auto simp: hide_conns split: if_splits)
    with e obtain c where "conns d p = Some c" "c_fd c' = c_fd c" "dataToSend c' = dataToSend c \<or> p \<in> writingSockets d'"
      by blast
    with p(1) show ?thesis by (simp add: hide_conns)
  qed
  ultimately show ?thesis using e unfolding extends_def by simp
qed

lemma steady_notify:
  assumes "steady W R (hide {p} d)" and "polite cb"
  shows "steady W R (hide {p} (clientStateChangedCallback cb (Some p) Disconnected d))"
  by (rule steady_extends [OF assms(1) extends_hide [OF polite_extends(3) [OF assms(2)]]])

lemma steady_active [simp]: "steady W R (d\<lparr>active_fd_set := x\<rparr>) = steady W R d"
  by (simp add: steady_def conns_ok_def)

lemma steady_delete: "steady W R (delete_connection i p d) = steady W R (hide {p} d)"
proof -
  have "delete_connection i p d = (hide {p} d)\<lparr>active_fd_set := active_fd_set d - {i}\<rparr>"
    by (simp add: delete_connection_def hide_def restrict_map_def fun_eq_iff)
  then show ?thesis by simp
qed

lemma steady_accept:
  assumes "steady W R d" and "polite cb" and "accept_connection cb n d = Inr (Go_on d')"
    and "case clientSockets d (nat n) of Some (Some _) \<Rightarrow> False | _ \<Rightarrow> True"
  shows "steady W R d'"
proof -
  let ?fd = "nat n" and ?p = "next_conn d"
  let ?d = "d\<lparr>active_fd_set := insert ?fd (active_fd_set d),
      conns := (conns d)(?p \<mapsto> \<lparr>c_fd = ?fd, receivedData = [], dataToSend = []\<rparr>),
      next_conn := ?p + 1, clientSockets := (clientSockets d)(?fd \<mapsto> Some ?p)\<rparr>"
  have d': "d' = clientStateChangedCallback cb (Some ?p) Connected ?d" and n: "?fd < FD_SETSIZE"
    using assms(3) by (auto simp: accept_connection_def Let_def FD_SETSIZE_def split: if_splits)
  have new: "conns d ?p = None" using steadyD(3) [OF assms(1), of ?p] by (cases "conns d ?p") auto
  have fd: "c_fd c \<noteq> ?fd" if "conns d q = Some c" for q c
    using steadyD(2) [OF assms(1) that] assms(4) by auto
  have "steady W R ?d"
  proof (rule steadyI)
    fix fd q assume "clientSockets ?d fd = Some (Some q)"
    then show "\<exists>c. conns ?d q = Some c \<and> c_fd c = fd"
      using steadyD(1) [OF assms(1), of fd q] new by (auto split: if_splits)
  next
    fix q c assume "conns ?d q = Some c"
    then show "clientSockets ?d (c_fd c) = Some (Some q) \<and> q < next_conn ?d \<and> c_fd c < FD_SETSIZE"
      using steadyD(2-4) [OF assms(1), of q c] fd [of q c] n by (auto split: if_splits)
  next
    fix q assume "q \<in> writingSockets ?d"
    then show "\<exists>c. conns ?d q = Some c" using steadyD(5) [OF assms(1)] by auto
  next
    fix q assume "q \<in> W"
    then show "\<exists>c. conns ?d q = Some c" using steadyD(6) [OF assms(1)] by auto
  next
    fix q c assume "conns ?d q = Some c" "dataToSend c \<noteq> []"
    then show "q \<in> writingSockets ?d \<or> q \<in> W \<or> c_fd c \<in> R"
      using steadyD(7) [OF assms(1), of q c] by (auto split: if_splits)
  qed
  from steady_extends [OF this polite_extends(2) [OF assms(2)]] d' show ?thesis by simp
qed


section \<open>Serving a descriptor\<close>

lemma steady_read_ready:
  assumes "steady W R d" and "polite cb" and "read_ready cb env i d = Inr (ended, Go_on d')"
    and "int i = listenSocket d \<Longrightarrow> case clientSockets d (nat (accept_ret env)) of Some (Some _) \<Rightarrow> False | _ \<Rightarrow> True"
  shows "steady W R d'"
    and "ended = Some p \<Longrightarrow> clientSockets d' i = Some (Some p) \<and> clientSockets d i = Some (Some p) \<and> recv_ret env i = Some []"
proof -
  have "steady W R d' \<and> (\<forall>p. ended = Some p \<longrightarrow> clientSockets d' i = Some (Some p) \<and> clientSockets d i = Some (Some p) \<and>
      recv_ret env i = Some [])"
  proof (cases "int i = listenSocket d")
    case True
    with assms(3) have "accept_connection cb (accept_ret env) d = Inr (Go_on d')" "ended = None"
      by (auto simp: read_ready_def)
    with steady_accept [OF assms(1,2) this(1)] assms(4) True show ?thesis by simp
  next
    case False
    obtain conn d1 where l: "lookup_insert i d = (conn, d1)" by fastforce
    note s1 = steady_lookup [OF assms(1) l]
    show ?thesis
    proof (cases conn)
      case None
      with assms(3) False l s1(1) show ?thesis by (simp add: read_ready_def)
    next
      case (Some q)
      with assms(3) False l obtain up where r: "receiveDataFromSocket cb (recv_ret env i) q d1 = Inr (up, d')"
        and e: "ended = (if up then None else Some q)"
        by (auto simp: read_ready_def)
      from steady_receive [OF s1(1) assms(2) r] s1(3,5) e Some show ?thesis by auto
    qed
  qed
  then show "steady W R d'"
    and "ended = Some p \<Longrightarrow> clientSockets d' i = Some (Some p) \<and> clientSockets d i = Some (Some p) \<and> recv_ret env i = Some []"
    by blast+
qed

lemma steady_serve_write:
  assumes "steady W R d" and "serve_write env i d = Inr d'"
  shows "steady W (R - {i}) d'"
proof -
  obtain conn d1 where l: "lookup_insert i d = (conn, d1)" by fastforce
  note s1 = steady_lookup [OF assms(1) l]
  show ?thesis
  proof (cases conn)
    case None
    then have d': "d' = d1" using assms(2) l by (simp add: serve_write_def)
    show ?thesis unfolding d'
      by (rule steadyI) (use steadyD [OF s1(1)] s1(2,4) None in auto)
  next
    case (Some p)
    then obtain c where c: "conns d1 p = Some c" "c_fd c = i" using s1(2,5) by auto
    show ?thesis
      using assms(2) l Some c steady_cleared [OF s1(1) c(1)]
      by (auto simp: serve_write_def sendDataToSocket_def Let_def split: if_splits)
  qed
qed

lemma looked_up_live:
  assumes "steady W R d" and "lookup_insert i d = (Some p, d')"
  shows "conns d' p \<noteq> None"
  using steady_lookup(2,5) [OF assms] by auto

lemma read_ready_not_freed:
  assumes "steady W R d"
  shows "read_ready cb env i d \<noteq> Inl Use_after_free"
proof -
  obtain conn d1 where l: "lookup_insert i d = (conn, d1)" by fastforce
  with looked_up_live [OF assms] have "conns d1 p \<noteq> None" if "conn = Some p" for p using that by blast
  with l show ?thesis
    by (auto simp: read_ready_def res_bind_eq_Inl accept_connection_def receiveDataFromSocket_def Let_def
        split: option.splits if_splits)
qed

lemma serve_write_not_freed:
  assumes "steady W R d"
  shows "serve_write env i d \<noteq> Inl Use_after_free"
proof -
  obtain conn d1 where l: "lookup_insert i d = (conn, d1)" by fastforce
  with looked_up_live [OF assms] have "conns d1 p \<noteq> None" if "conn = Some p" for p using that by blast
  with l show ?thesis by (auto simp: serve_write_def sendDataToSocket_def Let_def split: option.splits)
qed

section \<open>Steps keep the invariant\<close>

text \<open>
  The descriptors that are still to be written to in the current round, and the server as its tables show it,
  without the connection that is being deleted.
\<close>

definition to_write :: "'u serving \<Rightarrow> nat set" where
  "to_write s = (case this_round s of None \<Rightarrow> {} | Some (env, rd, wr, is, st) \<Rightarrow> wr \<inter> set is)"

definition view :: "'u serving \<Rightarrow> 'u server" where
  "view s = hide (erased s) (srv s)"

definition stage_ok :: "'u serving \<Rightarrow> bool" where
  "stage_ok s \<longleftrightarrow>
     (case this_round s of
        None \<Rightarrow> True
      | Some (env, rd, wr, [], st) \<Rightarrow> st = At_read
      | Some (env, rd, wr, i # is, st) \<Rightarrow>
          (case st of Ending p \<Rightarrow> clientSockets (srv s) i = Some (Some p) \<and> p \<notin> set (sending s) | _ \<Rightarrow> True))"

definition live_ok :: "'u serving \<Rightarrow> bool" where
  "live_ok s \<longleftrightarrow> stage_ok s \<and> steady (set (sending s)) UNIV (view s)"

definition data_ok :: "'u serving \<Rightarrow> bool" where
  "data_ok s \<longleftrightarrow> live_ok s \<and> (\<not> returned s \<longrightarrow> steady (set (sending s)) (to_write s) (view s))"

lemmas round_simps = view_def erased_def stage_ok_def to_write_def ending_def

lemma steady_append:
  assumes "steady W R d" and "conns d p = Some c0"
  shows "steady (insert p W) R (sendData_append p data d)"
  by (rule steadyI)
    (use steadyD [OF assms(1)] assms(2) in \<open>fastforce simp: sendData_append_def upd_conn_def split: if_splits\<close>)+

lemma steady_mark:
  assumes "steady W R d" and "conns d p = Some c0" and "W' \<subseteq> W" and "W - {p} \<subseteq> W'"
  shows "steady W' R (sendData_mark p d)"
proof (rule steadyI)
  fix q c assume c: "conns (sendData_mark p d) q = Some c" "dataToSend c \<noteq> []"
  then have "q \<in> writingSockets d \<or> q \<in> W \<or> c_fd c \<in> R" using steadyD(7) [OF assms(1)] by (simp add: sendData_mark_def)
  with assms(4) show "q \<in> writingSockets (sendData_mark p d) \<or> q \<in> W' \<or> c_fd c \<in> R"
    by (auto simp: sendData_mark_def)
qed (use steadyD(1-6) [OF assms(1)] assms(2,3) in \<open>auto simp: sendData_mark_def\<close>)

lemma set_remove1_minus: "set xs - {x} \<subseteq> set (remove1 x xs)"
  by (induction xs) auto

lemma steady_mark_remove1:
  "steady (set ps) R d \<Longrightarrow> conns d p = Some c \<Longrightarrow> steady (set (remove1 p ps)) R (sendData_mark p d)"
  by (erule (1) steady_mark [OF _ _ set_remove1_subset set_remove1_minus])

lemma steady_swap:
  assumes "steady W R d" and "requested_writes d \<union> R \<subseteq> R'"
  shows "steady W R' (d\<lparr>writingSockets := {}\<rparr>)"
proof (rule steadyI)
  fix p c assume c: "conns (d\<lparr>writingSockets := {}\<rparr>) p = Some c" "dataToSend c \<noteq> []"
  then have "p \<in> writingSockets d \<or> p \<in> W \<or> c_fd c \<in> R" using steadyD(7) [OF assms(1)] by simp
  moreover have "c_fd c \<in> requested_writes d" if "p \<in> writingSockets d"
    using that c(1) by (force simp: requested_writes_def)
  ultimately show "p \<in> writingSockets (d\<lparr>writingSockets := {}\<rparr>) \<or> p \<in> W \<or> c_fd c \<in> R'"
    using assms(2) by blast
qed (use steadyD [OF assms(1)] in auto)

lemma steady_requested: "steady W R d \<Longrightarrow> requested_writes d \<subseteq> set [0..<FD_SETSIZE]"
  using steadyD(4,5) by (fastforce simp: requested_writes_def)

lemma may_readD:
  assumes "may_read env rd i s" and "i \<in> rd"
  shows "int i = listenSocket (srv s) \<Longrightarrow> case clientSockets (srv s) (nat (accept_ret env)) of Some (Some _) \<Rightarrow> False | _ \<Rightarrow> True"
    "recv_ret env i = Some [] \<Longrightarrow> clientSockets (srv s) i = Some (Some p) \<Longrightarrow> p \<notin> set (sending s)"
  using assms unfolding may_read_def by (auto split: option.splits)

lemma read_ready_Return_false: "read_ready cb env i d = Inr (ended, Return_false d') \<Longrightarrow> d' = d"
  by (auto simp: read_ready_def accept_connection_def Let_def split: if_splits option.splits prod.splits)

text \<open>A step of the polling thread inside a round.\<close>

lemma read_step:
  assumes "steady (set (sending s)) R (srv s)" and "polite cb" and "this_round s = Some (env, rd, wr, i # is, At_read)"
    and "may_read env rd i s" and "i \<in> rd" and "serve_next cb s = Inr s'"
  shows "stage_ok s' \<and> sending s' = sending s \<and> steady (set (sending s)) R (view s') \<and>
    (returned s' \<or> to_write s' = to_write s)"
proof -
  from assms(3,5,6) obtain ended r where r: "read_ready cb env i (srv s) = Inr (ended, r)"
    by (auto simp: serve_next_def)
  show ?thesis
  proof (cases r)
    case (Return_false d)
    with r have "d = srv s" by (auto dest: read_ready_Return_false)
    with r Return_false assms(1,3,5,6) show ?thesis by (auto simp: serve_next_def round_simps)
  next
    case (Go_on d)
    note s = steady_read_ready [OF assms(1,2) r [unfolded Go_on]]
    have accept: "int i = listenSocket (srv s) \<Longrightarrow>
      case clientSockets (srv s) (nat (accept_ret env)) of Some (Some _) \<Rightarrow> False | _ \<Rightarrow> True"
      by (rule may_readD(1) [OF assms(4,5)])
    have s1: "steady (set (sending s)) R d" by (rule s(1)) (rule accept)
    have s': "s' = s\<lparr>srv := d, this_round := Some (env, rd, wr, i # is, case ended of None \<Rightarrow> At_write False | Some p \<Rightarrow> Ending p)\<rparr>"
      using r Go_on assms(3,5,6) by (simp add: serve_next_def)
    show ?thesis
    proof (cases ended)
      case None
      with s1 s' assms(3) show ?thesis by (simp add: round_simps)
    next
      case (Some p)
      have e: "clientSockets d i = Some (Some p) \<and> clientSockets (srv s) i = Some (Some p) \<and> recv_ret env i = Some []"
        by (rule s(2) [OF _ Some]) (rule accept)
      then have "p \<notin> set (sending s)" using may_readD(2) [OF assms(4,5)] by blast
      with e Some s1 s' assms(3) show ?thesis by (simp add: round_simps)
    qed
  qed
qed

lemma steady_serve_next:
  assumes "stage_ok s" and "steady (set (sending s)) R (view s)" and "polite cb" and "admissible Serve_next s"
    and "serve_next cb s = Inr s'"
  shows "stage_ok s' \<and> sending s' = sending s \<and> steady (set (sending s)) R (view s') \<and>
    (returned s' \<or> steady (set (sending s)) (R - (to_write s - to_write s')) (view s'))"
proof -
  from assms(4) obtain env rd wr js st where t: "this_round s = Some (env, rd, wr, js, st)"
    by (auto simp: admissible_def split: option.splits)
  show ?thesis
  proof (cases js)
    case Nil
    with assms(1,2,5) t show ?thesis by (auto simp: serve_next_def round_simps)
  next
    case (Cons i "is")
    note t = t [unfolded Cons]
    show ?thesis
    proof (cases st)
      case At_read
      note t = t [unfolded At_read]
      have s: "steady (set (sending s)) R (srv s)" using assms(2) t by (simp add: round_simps)
      show ?thesis
      proof (cases "i \<in> rd")
        case True
        have "may_read env rd i s" using assms(4) t by (simp add: admissible_def)
        from read_step [OF s assms(3) t this True assms(5)] show ?thesis by auto
      next
        case False
        with assms(5) s t show ?thesis by (auto simp: serve_next_def round_simps)
      qed
    next
      case (Ending p)
      with t assms(1,2) have "steady (set (sending s)) R (hide {p} (erase_connection i p (srv s)))"
        by (intro steady_erase) (simp_all add: round_simps)
      with Ending t assms(5) show ?thesis by (auto simp: serve_next_def round_simps)
    next
      case (Erased p)
      with t assms(2) have "steady (set (sending s)) R (hide {p} (clientStateChangedCallback cb (Some p) Disconnected (srv s)))"
        by (intro steady_notify [OF _ assms(3)]) (simp add: round_simps)
      with Erased t assms(5) show ?thesis by (auto simp: serve_next_def round_simps)
    next
      case (Notified p)
      with t assms(2) have "steady (set (sending s)) R (delete_connection i p (srv s))"
        by (simp add: steady_delete round_simps)
      with Notified t assms(5) show ?thesis by (auto simp: serve_next_def round_simps)
    next
      case (At_write del)
      note t = t [unfolded At_write]
      have s: "steady (set (sending s)) R (srv s)" using assms(2) t by (simp add: round_simps)
      obtain d where d: "(if i \<in> wr then serve_write env i (srv s) else Inr (srv s)) = Inr d"
        and s': "s' = s\<lparr>srv := (if del then d\<lparr>closed := closed d @ [i]\<rparr> else d), this_round := Some (env, rd, wr, is, At_read)\<rparr>"
        using assms(5) t by (auto simp: serve_next_def)
      have "steady (set (sending s)) (R - ({i} \<inter> wr)) d"
        using d s steady_serve_write [OF s] by (auto split: if_splits)
      moreover have "R - ({i} \<inter> wr) \<subseteq> R - (to_write s - to_write s')"
        using t s' by (auto simp: to_write_def)
      ultimately have "steady (set (sending s)) (R - (to_write s - to_write s')) (srv s')"
        unfolding s' by (auto elim: steady_mono)
      moreover have "stage_ok s'" "view s' = srv s'" using s' by (simp_all add: round_simps split: list.split)
      moreover from calculation(1) have "steady (set (sending s)) R (srv s')" by (rule steady_mono) blast
      ultimately show ?thesis using s' by simp
    qed
  qed
qed

lemma serve_next_returned:
  assumes "serve_next cb s = Inr s'" and "returned s"
  shows "returned s'"
proof (cases "\<exists>env rd wr i is. this_round s = Some (env, rd, wr, i # is, At_read) \<and> i \<in> rd")
  case True
  then obtain env rd wr i "is" where t: "this_round s = Some (env, rd, wr, i # is, At_read)" "i \<in> rd" by blast
  with assms(1) obtain ended r where r: "read_ready cb env i (srv s) = Inr (ended, r)" by (auto simp: serve_next_def)
  with t assms show ?thesis by (cases r) (auto simp: serve_next_def)
next
  case False
  with assms show ?thesis
    by (auto simp: serve_next_def split: option.splits list.splits stage.splits if_splits)
qed

text \<open>The steps of the other threads, and the beginning of a round.\<close>

lemma erased_ending: "erased s \<subseteq> ending s"
proof -
  have "erased_in st \<subseteq> ending_in st" for st by (cases st) simp_all
  then show ?thesis by (auto simp: erased_def ending_def split: option.splits)
qed

lemma steady_append_step:
  assumes "stage_ok s" and "steady (set (sending s)) R (view s)" and "admissible (Append p data) s"
    and "append_step p data s = Inr s'"
  shows "stage_ok s' \<and> steady (set (sending s')) R (view s') \<and> returned s' = returned s \<and> to_write s' = to_write s"
proof -
  have s': "s' = s\<lparr>srv := sendData_append p data (srv s), sending := p # sending s\<rparr>"
    using assms(4) by (auto simp: append_step_def split: if_splits)
  have p: "p \<notin> ending s" "\<exists>c. conns (srv s) p = Some c" using assms(3) by (auto simp: admissible_def)
  then have e: "p \<notin> erased s" "\<exists>c. conns (view s) p = Some c"
    using erased_ending [of s] by (auto simp: view_def hide_conns)
  from e(2) assms(2) have "steady (insert p (set (sending s))) R (sendData_append p data (view s))"
    by (auto intro: steady_append)
  moreover have "view s' = sendData_append p data (view s)"
    using s' hide_sendData(1) [OF e(1)] by (simp add: view_def erased_def)
  moreover have "stage_ok s'"
    using assms(1) p(1) s'
    by (auto simp: round_simps sendData_append_def upd_conn_def split: option.splits list.splits stage.splits)
  ultimately show ?thesis using s' by (simp add: to_write_def)
qed

lemma steady_mark_step:
  assumes "stage_ok s" and "steady (set (sending s)) R (view s)" and "admissible (Mark p) s"
    and "mark_step p s = Inr s'"
  shows "stage_ok s' \<and> steady (set (sending s')) R (view s') \<and> returned s' = returned s \<and> to_write s' = to_write s"
proof -
  have s': "s' = s\<lparr>srv := sendData_mark p (srv s), sending := remove1 p (sending s)\<rparr>"
    using assms(4) by (auto simp: mark_step_def split: if_splits)
  obtain c where "conns (view s) p = Some c" using steadyD(6) [OF assms(2), of p] assms(3) by (auto simp: admissible_def)
  from steady_mark_remove1 [OF assms(2) this] have "steady (set (sending s')) R (view s')"
    using s' by (simp add: view_def erased_def hide_sendData(2))
  moreover have "stage_ok s'"
    using assms(1) s' set_remove1_subset [of p "sending s"]
    by (auto simp: round_simps sendData_mark_def split: option.splits list.splits stage.splits)
  ultimately show ?thesis using s' by (simp add: to_write_def)
qed

lemma begin_round_cases:
  assumes "begin_round env s = Inr s'" and "admissible (Begin_round env) s"
  obtains (failed) "srv s' = (srv s)\<lparr>writingSockets := {}\<rparr>" "sending s' = sending s" "returned s'" "this_round s' = None"
  | (begun) rd wr where "select_ret env = Some (rd, wr)" "srv s' = (srv s)\<lparr>writingSockets := {}\<rparr>" "sending s' = sending s"
      "this_round s' = Some (env, active_fd_set (srv s) \<inter> rd, requested_writes (srv s) \<inter> wr, [0..<FD_SETSIZE], At_read)"
  using assms by (auto simp: begin_round_def Let_def admissible_def split: if_splits option.splits)

lemma live_ok_step:
  assumes "live_ok s" and "polite cb" and "admissible ev s" and "srv_step cb ev s = Inr s'"
  shows "live_ok s'"
proof -
  have l: "stage_ok s" "steady (set (sending s)) UNIV (view s)" using assms(1) by (simp_all add: live_ok_def)
  show ?thesis
  proof (cases ev)
    case (Append p data)
    with steady_append_step [OF l] assms(3,4) show ?thesis by (simp add: srv_step_def live_ok_def)
  next
    case (Mark p)
    with steady_mark_step [OF l] assms(3,4) show ?thesis by (simp add: srv_step_def live_ok_def)
  next
    case (Begin_round env)
    then have b: "begin_round env s = Inr s'" "admissible (Begin_round env) s" using assms by (simp_all add: srv_step_def)
    have "steady (set (sending s)) UNIV (srv s)" using l(2) b(2) by (simp add: admissible_def round_simps)
    then have "steady (set (sending s)) UNIV ((srv s)\<lparr>writingSockets := {}\<rparr>)" by (rule steady_swap) simp
    with b show ?thesis
      by (auto elim!: begin_round_cases simp: live_ok_def round_simps split: list.split)
  next
    case Serve_next
    with steady_serve_next [OF l assms(2)] assms(3,4) show ?thesis by (simp add: srv_step_def live_ok_def)
  qed
qed

lemma data_ok_step:
  assumes "data_ok s" and "polite cb" and "admissible ev s" and "writable ev s" and "srv_step cb ev s = Inr s'"
  shows "data_ok s'"
proof -
  have live: "live_ok s" "live_ok s'" using assms live_ok_step unfolding data_ok_def by blast+
  have ok: "stage_ok s" using live(1) by (simp add: live_ok_def)
  have "steady (set (sending s')) (to_write s') (view s')" if run: "\<not> returned s'"
  proof (cases ev)
    case (Append p data)
    with assms(5) run have "\<not> returned s" by (auto simp: srv_step_def append_step_def split: if_splits)
    with Append steady_append_step [OF ok, of "to_write s" p data s'] assms show ?thesis
      by (simp add: srv_step_def data_ok_def)
  next
    case (Mark p)
    with assms(5) run have "\<not> returned s" by (auto simp: srv_step_def mark_step_def split: if_splits)
    with Mark steady_mark_step [OF ok, of "to_write s" p s'] assms show ?thesis
      by (simp add: srv_step_def data_ok_def)
  next
    case (Begin_round env)
    then have b: "begin_round env s = Inr s'" "admissible (Begin_round env) s" using assms by (simp_all add: srv_step_def)
    have s: "steady (set (sending s)) {} (srv s)"
      using assms(1) b(2) by (simp add: data_ok_def admissible_def round_simps)
    from b show ?thesis
    proof (cases rule: begin_round_cases)
      case (begun rd wr)
      have "requested_writes (srv s) \<subseteq> wr" using assms(4) Begin_round begun(1) by (simp add: writable_def)
      then have "requested_writes (srv s) \<union> {} \<subseteq> to_write s'"
        using begun(4) steady_requested [OF s] by (auto simp: to_write_def)
      with steady_swap [OF s] begun show ?thesis by (simp add: view_def erased_def)
    qed (use run in simp)
  next
    case Serve_next
    have "\<not> returned s" using serve_next_returned Serve_next assms(5) run by (auto simp: srv_step_def)
    then have "steady (set (sending s)) (to_write s) (view s)" using assms(1) by (simp add: data_ok_def)
    from steady_serve_next [OF ok this assms(2)] Serve_next assms(3,5) run
    have "sending s' = sending s" "steady (set (sending s)) (to_write s - (to_write s - to_write s')) (view s')"
      by (auto simp: srv_step_def)
    then show ?thesis by (auto elim: steady_mono)
  qed
  with live(2) show ?thesis by (simp add: data_ok_def)
qed

lemma steady_begin: "srv_begin s \<Longrightarrow> sending s = [] \<and> steady {} R (srv s)"
  by (auto simp: srv_begin_def serving_new_def Server_def steady_def conns_ok_def)

lemma view_begin: "srv_begin s \<Longrightarrow> steady (set (sending s)) R (view s)"
  using steady_begin [of s R] by (auto simp: srv_begin_def serving_new_def view_def erased_def)

lemma live_ok_begin: "srv_begin s \<Longrightarrow> live_ok s"
  using view_begin [of s UNIV] by (auto simp: live_ok_def srv_begin_def serving_new_def stage_ok_def)

interpretation live: invariant_of srv_begin "srv_moves cb" live_ok
  by unfold_locales (simp add: live_ok_begin, metis srv_moves_def live_ok_step)

interpretation flow: invariant_of srv_begin "srv_moves_writable cb" data_ok
  by unfold_locales (simp add: live_ok_begin data_ok_def view_begin, metis srv_moves_writable_def data_ok_step)


section \<open>A round without other threads\<close>

definition polled_serving :: "nat list \<Rightarrow> 'u polled \<Rightarrow> 'u serving" where
  "polled_serving ps r =
     (case r of
        Return_false d \<Rightarrow> \<lparr>srv = d, this_round = None, sending = ps, returned = True\<rparr>
      | Go_on d \<Rightarrow> \<lparr>srv = d, this_round = None, sending = ps, returned = False\<rparr>)"

lemma srv_run_append: "srv_run cb (evs @ evs') s = res_bind (srv_run cb evs s) (srv_run cb evs')"
proof (induction evs arbitrary: s)
  case (Cons ev evs)
  then show ?case by (cases "srv_step cb ev s") simp_all
qed simp

lemma srv_run_idle: "this_round s = None \<Longrightarrow> srv_run cb (replicate n Serve_next) s = Inr s"
  by (induction n) (simp_all add: srv_step_def serve_next_def)

abbreviation in_round ::
  "nat list \<Rightarrow> io \<Rightarrow> nat set \<Rightarrow> nat set \<Rightarrow> nat list \<Rightarrow> stage \<Rightarrow> 'u server \<Rightarrow> 'u serving" where
  "in_round ps env rd wr js st d \<equiv>
     \<lparr>srv = d, this_round = Some (env, rd, wr, js, st), sending = ps, returned = False\<rparr>"

lemma serve_read_ready:
  "serve_read cb env i d =
     res_bind (read_ready cb env i d) (\<lambda>(ended, r).
       case r of
         Return_false d \<Rightarrow> Inr (False, Return_false d)
       | Go_on d \<Rightarrow>
           (case ended of None \<Rightarrow> Inr (False, Go_on d) | Some p \<Rightarrow> Inr (True, Go_on (disconnect cb i p d))))"
proof (cases "int i = listenSocket d")
  case True
  show ?thesis
  proof (cases "accept_connection cb (accept_ret env) d")
    case (Inr r)
    with True show ?thesis by (cases r) (simp_all add: serve_read_def read_ready_def)
  qed (use True in \<open>simp add: serve_read_def read_ready_def\<close>)
next
  case False
  obtain conn d1 where l: "lookup_insert i d = (conn, d1)" by fastforce
  show ?thesis
  proof (cases conn)
    case None
    with False l show ?thesis by (simp add: serve_read_def read_ready_def)
  next
    case (Some p)
    show ?thesis
    proof (cases "receiveDataFromSocket cb (recv_ret env i) p d1")
      case (Inr ad)
      with False l Some show ?thesis by (cases ad; cases "fst ad") (simp_all add: serve_read_def read_ready_def)
    qed (use False l Some in \<open>simp add: serve_read_def read_ready_def\<close>)
  qed
qed

text \<open>The stages of one descriptor, run without a break, are its service.\<close>

lemma serve_stages:
  "\<exists>k. \<forall>m. srv_run cb (replicate (k + m) Serve_next) (in_round ps env rd wr (i # is) At_read d) =
     res_bind (serve cb env rd wr i d) (\<lambda>r.
       case r of
         Return_false d \<Rightarrow> Inr (polled_serving ps (Return_false d))
       | Go_on d \<Rightarrow> srv_run cb (replicate m Serve_next) (in_round ps env rd wr is At_read d))"
proof -
  let ?s = "in_round ps env rd wr (i # is)"
  have "srv_run cb (replicate (Suc m) Serve_next) (?s (At_write del) e) =
      res_bind (if i \<in> wr then serve_write env i e else Inr e) (\<lambda>d.
        srv_run cb (replicate m Serve_next) (in_round ps env rd wr is At_read (if del then d\<lparr>closed := closed d @ [i]\<rparr> else d)))"
    for m del e
    by (cases "i \<in> wr"; cases "serve_write env i e") (simp_all add: srv_step_def serve_next_def)
  note at_write = this
  have idle: "srv_run cb (replicate m Serve_next) (polled_serving ps (Return_false e)) = Inr (polled_serving ps (Return_false e))"
    for m e by (rule srv_run_idle) (simp add: polled_serving_def)
  show ?thesis
  proof (cases "i \<in> rd")
    case False
    have "srv_run cb (replicate (2 + m) Serve_next) (?s At_read d) =
        srv_run cb (replicate (Suc m) Serve_next) (?s (At_write False) d)" for m
      using False by (simp add: srv_step_def serve_next_def)
    with False at_write show ?thesis
      by (intro exI [of _ 2]) (simp add: serve_def res_bind_def split: sum.split del: replicate_Suc)
  next
    case True
    show ?thesis
    proof (cases "read_ready cb env i d")
      case (Inl e)
      with True show ?thesis
        by (intro exI [of _ 1]) (simp add: serve_def serve_read_ready srv_step_def serve_next_def)
    next
      case (Inr er)
      obtain ended r where er: "er = (ended, r)" by fastforce
      show ?thesis
      proof (cases r)
        case (Return_false e)
        with Inr er True idle show ?thesis
          by (intro exI [of _ 1]) (simp add: serve_def serve_read_ready srv_step_def serve_next_def polled_serving_def)
      next
        case (Go_on e)
        show ?thesis
        proof (cases ended)
          case None
          have "srv_run cb (replicate (2 + m) Serve_next) (?s At_read d) =
              srv_run cb (replicate (Suc m) Serve_next) (?s (At_write False) e)" for m
            using True Inr er Go_on None by (simp add: srv_step_def serve_next_def)
          with True Inr er Go_on None at_write show ?thesis
            by (intro exI [of _ 2]) (simp add: serve_def serve_read_ready res_bind_def split: sum.split del: replicate_Suc)
        next
          case (Some p)
          have "srv_run cb (replicate (5 + m) Serve_next) (?s At_read d) =
              srv_run cb (replicate (Suc m) Serve_next) (?s (At_write True) (disconnect cb i p e))" for m
            using True Inr er Go_on Some
            by (simp add: numeral_eq_Suc srv_step_def serve_next_def disconnect_def)
          with True Inr er Go_on Some at_write show ?thesis
            by (intro exI [of _ 5]) (simp add: serve_def serve_read_ready res_bind_def split: sum.split del: replicate_Suc)
        qed
      qed
    qed
  qed
qed

lemma srv_run_serve_all:
  "\<exists>n. srv_run cb (replicate n Serve_next) (in_round ps env rd wr is At_read d) =
     res_bind (serve_all cb env rd wr is d) (\<lambda>r. Inr (polled_serving ps r))"
proof (induction "is" arbitrary: d)
  case Nil
  show ?case by (rule exI [of _ 1]) (simp add: srv_step_def serve_next_def polled_serving_def)
next
  case (Cons i "is")
  obtain k where k: "srv_run cb (replicate (k + m) Serve_next) (in_round ps env rd wr (i # is) At_read d) =
     res_bind (serve cb env rd wr i d) (\<lambda>r.
       case r of
         Return_false d \<Rightarrow> Inr (polled_serving ps (Return_false d))
       | Go_on d \<Rightarrow> srv_run cb (replicate m Serve_next) (in_round ps env rd wr is At_read d))" for m
    using serve_stages by blast
  show ?case
  proof (cases "serve cb env rd wr i d")
    case (Inl e)
    then show ?thesis using k [of 0] by (intro exI [of _ k]) simp
  next
    case (Inr r)
    show ?thesis
    proof (cases r)
      case (Return_false d1)
      then show ?thesis using k [of 0] Inr by (intro exI [of _ k]) simp
    next
      case (Go_on d1)
      obtain n where "srv_run cb (replicate n Serve_next) (in_round ps env rd wr is At_read d1) =
        res_bind (serve_all cb env rd wr is d1) (\<lambda>r. Inr (polled_serving ps r))" using Cons.IH by blast
      then show ?thesis using k [of n] Inr Go_on by (intro exI [of _ "k + n"]) simp
    qed
  qed
qed

text \<open>
  The loop that is cut into steps is the loop of the code: without other threads, the beginning of a round
  followed by enough steps of the polling thread is one pass through the body of \<open>while (1)\<close>, with the same
  state, the same return and the same error.
\<close>

theorem round_alone_is_poll_round:
  "\<exists>n. srv_run cb (Begin_round env # replicate n Serve_next) (serving_new d) =
     res_bind (poll_round cb env d) (\<lambda>r. Inr (polled_serving [] r))"
proof (cases "\<exists>p\<in>writingSockets d. conns d p = None")
  case True
  then show ?thesis by (simp add: srv_step_def begin_round_def serving_new_def poll_round_def)
next
  case False
  let ?d = "d\<lparr>writingSockets := {}\<rparr>"
  show ?thesis
  proof (cases "select_ret env")
    case None
    with False show ?thesis
      by (intro exI [of _ 0]) (simp add: srv_step_def begin_round_def serving_new_def poll_round_def polled_serving_def Let_def)
  next
    case (Some rw)
    obtain rd wr where rw: "rw = (rd, wr)" by fastforce
    obtain n where "srv_run cb (replicate n Serve_next)
        (in_round [] env (active_fd_set d \<inter> rd) (requested_writes d \<inter> wr) [0..<FD_SETSIZE] At_read ?d) =
      res_bind (serve_all cb env (active_fd_set d \<inter> rd) (requested_writes d \<inter> wr) [0..<FD_SETSIZE] ?d)
        (\<lambda>r. Inr (polled_serving [] r))"
      using srv_run_serve_all by blast
    moreover have "srv_step cb (Begin_round env) (serving_new d) =
        Inr (in_round [] env (active_fd_set d \<inter> rd) (requested_writes d \<inter> wr) [0..<FD_SETSIZE] At_read ?d)"
      using False Some rw by (simp add: srv_step_def begin_round_def serving_new_def Let_def)
    moreover have "poll_round cb env d =
        serve_all cb env (active_fd_set d \<inter> rd) (requested_writes d \<inter> wr) [0..<FD_SETSIZE] ?d"
      using False Some rw by (auto simp: poll_round_def Let_def)
    ultimately show ?thesis by (intro exI [of _ n]) simp
  qed
qed

section \<open>Connections are not used after their end\<close>

lemma view_conns: "conns (view s) p = Some c \<Longrightarrow> conns (srv s) p = Some c"
  by (simp add: view_def hide_conns split: if_splits)

lemma serve_next_not_freed:
  assumes "steady W R (view s)"
  shows "serve_next cb s \<noteq> Inl Use_after_free"
proof (cases "\<exists>env rd wr i is st. this_round s = Some (env, rd, wr, i # is, st) \<and> erased_in st = {}")
  case True
  then obtain env rd wr i "is" st where t: "this_round s = Some (env, rd, wr, i # is, st)" "erased_in st = {}" by blast
  with assms have s: "steady W R (srv s)" by (simp add: view_def erased_def)
  show ?thesis
  proof (cases st)
    case At_read
    show ?thesis
    proof (cases "read_ready cb env i (srv s)")
      case (Inr er)
      with t At_read show ?thesis by (cases er; cases "snd er") (auto simp: serve_next_def)
    qed (use t At_read read_ready_not_freed [OF s] in \<open>auto simp: serve_next_def\<close>)
  next
    case (At_write del)
    with t serve_write_not_freed [OF s] show ?thesis by (auto simp: serve_next_def res_bind_eq_Inl split: if_splits)
  qed (use t in \<open>auto simp: serve_next_def\<close>)
next
  case False
  then show ?thesis by (auto simp: serve_next_def split: option.splits list.splits stage.splits)
qed

text \<open>
  C10 No deleted connection is used by the loop or by a thread inside \<open>sendData\<close>, in any interleaving of the loop,
  down to the single statements that end a connection, with any number of such threads: every marked connection
  and every connection a thread is sending on is live, so that the beginning of a round, every step of the service of the
  descriptors and the second section of every \<open>sendData\<close> find their object. The environment
  keeps a discipline the code leaves to it: a \<open>sendData\<close> begins only on a connection whose end the loop has not read, the
  end of a connection is not read between the two sections of one, \<open>accept\<close> gives unused descriptors, and
  the callbacks send on open connections only.
\<close>

theorem no_deleted_connection_used:
  assumes "srv_begin s0" and "(srv_moves cb)\<^sup>*\<^sup>* s0 s"
  shows "writingSockets (srv s) \<union> set (sending s) \<subseteq> dom (conns (srv s)) \<and>
    (\<forall>p\<in>set (sending s). srv_step cb (Mark p) s \<noteq> Inl Use_after_free) \<and>
    (\<forall>env. srv_step cb (Begin_round env) s \<noteq> Inl Use_after_free) \<and>
    srv_step cb Serve_next s \<noteq> Inl Use_after_free"
proof -
  have s: "steady (set (sending s)) UNIV (view s)"
    using live.inv_reachable [OF assms(1,2)] by (simp add: live_ok_def)
  have marked: "\<exists>c. conns (srv s) p = Some c" if "p \<in> writingSockets (srv s)" for p
    using steadyD(5) [OF s, of p] view_conns [of s p] that by (auto simp: view_def)
  have busy: "\<exists>c. conns (srv s) p = Some c" if "p \<in> set (sending s)" for p
    using steadyD(6) [OF s that] view_conns [of s p] by auto
  have "\<not> (\<exists>p\<in>writingSockets (srv s). conns (srv s) p = None)" using marked by fastforce
  then have "srv_step cb (Begin_round env) s \<noteq> Inl Use_after_free" for env
    by (auto simp: srv_step_def begin_round_def Let_def split: option.splits)
  moreover have "srv_step cb Serve_next s \<noteq> Inl Use_after_free"
    using serve_next_not_freed [OF s] by (simp add: srv_step_def)
  moreover have "srv_step cb (Mark p) s \<noteq> Inl Use_after_free" if "p \<in> set (sending s)" for p
    using busy [OF that] by (auto simp: srv_step_def mark_step_def)
  ultimately show ?thesis using marked busy by blast
qed

fun good_run :: "'u callbacks \<Rightarrow> srv_event list \<Rightarrow> 'u serving \<Rightarrow> bool" where
  "good_run cb [] s = True"
| "good_run cb (ev # evs) s \<longleftrightarrow> admissible ev s \<and> writable ev s \<and>
     (case srv_step cb ev s of Inl _ \<Rightarrow> False | Inr s' \<Rightarrow> good_run cb evs s')"

lemma good_run_moves:
  assumes "polite cb" and "good_run cb evs s" and "srv_run cb evs s = Inr s'"
  shows "(srv_moves_writable cb)\<^sup>*\<^sup>* s s'"
  using assms(2,3)
proof (induction evs arbitrary: s)
  case (Cons ev evs)
  then obtain s1 where s1: "srv_step cb ev s = Inr s1" "srv_run cb evs s1 = Inr s'" by auto
  with Cons.prems(1) assms(1) have "srv_moves_writable cb s s1" by (auto simp: srv_moves_writable_def)
  moreover have "(srv_moves_writable cb)\<^sup>*\<^sup>* s1 s'" using Cons s1 by simp
  ultimately show ?case by (rule converse_rtranclp_into_rtranclp)
qed simp

lemma moves_writable_moves: "(srv_moves_writable cb)\<^sup>*\<^sup>* s s' \<Longrightarrow> (srv_moves cb)\<^sup>*\<^sup>* s s'"
  by (erule mono_rtranclp [rule_format, rotated]) (auto simp: srv_moves_writable_def srv_moves_def)

definition demo_serving :: "(bytes \<times> nat) list serving" where
  "demo_serving = serving_new ((Server [])\<lparr>listenSocket := 1, active_fd_set := {1}\<rparr>)"

definition demo_sending :: "(bytes \<times> nat) list serving" where
  "demo_sending = \<lparr>srv = (Server [])\<lparr>listenSocket := 1, active_fd_set := {1, 7}, next_conn := 1,
      clientSockets := [7 \<mapsto> Some 0], conns := [0 \<mapsto> \<lparr>c_fd = 7, receivedData = [], dataToSend = ''hi''\<rparr>]\<rparr>,
     this_round = Some (demo_env {1} {}, {1}, {}, [2..<FD_SETSIZE], At_read), sending = [0], returned = False\<rparr>"

lemma demo_serving_begin: "srv_begin demo_serving"
  unfolding srv_begin_def demo_serving_def by (rule exI [of _ "[]"], rule exI [of _ 1]) simp

lemma demo_polite: "polite demo_cb"
proof -
  have "sends X d d" for X and d :: "(bytes \<times> nat) list server"
    unfolding sends_def by (rule exI [of _ "[]"], rule exI [of _ "user d"]) simp
  moreover have "sends X d (record_data buf p d)" for X buf p d
    unfolding sends_def record_data_def by (rule exI [of _ "[]"]) auto
  ultimately show ?thesis by (simp add: polite_def demo_cb_def)
qed

lemma demo_descriptors: "[0..<FD_SETSIZE] = 0 # 1 # [2..<FD_SETSIZE]" "\<not> FD_SETSIZE \<le> 7"
proof -
  have "0 < FD_SETSIZE" "1 < FD_SETSIZE" by (simp_all add: FD_SETSIZE_def)
  then show "[0..<FD_SETSIZE] = 0 # 1 # [2..<FD_SETSIZE]"
    by (metis One_nat_def Suc_1 upt_conv_Cons)
qed (simp add: FD_SETSIZE_def)

lemma demo_run:
  "srv_run demo_cb [Begin_round (demo_env {1} {}), Serve_next, Serve_next, Serve_next, Serve_next, Append 0 ''hi''] demo_serving =
     Inr demo_sending \<and>
   good_run demo_cb [Begin_round (demo_env {1} {}), Serve_next, Serve_next, Serve_next, Serve_next, Append 0 ''hi''] demo_serving"
  by (simp add: demo_serving_def demo_sending_def serving_new_def Server_def srv_step_def begin_round_def serve_next_def
      demo_env_def demo_cb_def demo_descriptors append_step_def sendData_append_def upd_conn_def requested_writes_def
      read_ready_def accept_connection_def admissible_def ending_def may_read_def writable_def
      insert_commute del: upt_Suc res_bind_eq_Inr)


lemma demo_moves: "(srv_moves_writable demo_cb)\<^sup>*\<^sup>* demo_serving demo_sending"
  using good_run_moves [OF demo_polite] demo_run by blast

theorem no_deleted_connection_used_witness:
  "srv_step demo_cb (Mark 0) demo_sending \<noteq> Inl Use_after_free \<and>
   srv_step demo_cb Serve_next demo_sending \<noteq> Inl Use_after_free"
proof -
  have "0 \<in> set (sending demo_sending)" by (simp add: demo_sending_def)
  with no_deleted_connection_used [OF demo_serving_begin moves_writable_moves [OF demo_moves]] show ?thesis by blast
qed

text \<open>
  C11 No data is forgotten while the sockets are writable: whenever a connection has data to send, it is marked for the
  next round, or a thread is about to mark it, or its descriptor is still to be
  written to in the round that is running, where serving the descriptor empties the buffer; the only other
  case is the connection whose peer has closed and which the loop has taken out of its tables and is about to delete.
  This holds in every interleaving of any number of senders with the loop.
\<close>

theorem waiting_data_scheduled:
  assumes "srv_begin s0" and "(srv_moves_writable cb)\<^sup>*\<^sup>* s0 s" and "\<not> returned s"
    and "conns (srv s) p = Some c" and "dataToSend c \<noteq> []"
  shows "p \<in> writingSockets (srv s) \<or> p \<in> set (sending s) \<or>
    (\<exists>env rd wr is st. this_round s = Some (env, rd, wr, is, st) \<and> c_fd c \<in> wr \<and> c_fd c \<in> set is) \<or> p \<in> erased s"
proof (cases "p \<in> erased s")
  case False
  with assms(4) have c: "conns (view s) p = Some c" by (simp add: view_def hide_conns)
  have "steady (set (sending s)) (to_write s) (view s)"
    using flow.inv_reachable [OF assms(1,2)] assms(3) by (simp add: data_ok_def)
  from steadyD(7) [OF this c assms(5)] show ?thesis by (auto simp: to_write_def view_def split: option.splits)
qed simp

theorem waiting_data_scheduled_witness:
  "0 \<in> writingSockets (srv demo_sending) \<or> 0 \<in> set (sending demo_sending) \<or>
    (\<exists>env rd wr is st. this_round demo_sending = Some (env, rd, wr, is, st) \<and> 7 \<in> wr \<and> 7 \<in> set is) \<or>
    0 \<in> erased demo_sending"
  using waiting_data_scheduled [OF demo_serving_begin demo_moves, of 0 "\<lparr>c_fd = 7, receivedData = [], dataToSend = ''hi''\<rparr>"]
  by (simp add: demo_sending_def)

section \<open>The races at the end of a connection\<close>

lemma dangling_round:
  "p \<in> writingSockets (srv s) \<Longrightarrow> conns (srv s) p = None \<Longrightarrow> begin_round env s = Inl Use_after_free"
  by (auto simp: begin_round_def Let_def)

lemma read_end:
  assumes "conns d p = Some c" and "clientSockets d (c_fd c) = Some (Some p)" and "int (c_fd c) \<noteq> listenSocket d"
    and "recv_ret env (c_fd c) = Some []"
  shows "read_ready cb env (c_fd c) d = Inr (Some p, Go_on d)"
  using assms by (simp add: read_ready_def lookup_insert_def receiveDataFromSocket_def)

text \<open>
  C37 The assumptions on the end of connections are needed. If the peer closes a connection while another
  thread is between the two sections of its \<open>sendData\<close>, the loop deletes the connection and
  the thread goes on with the deleted object. If a thread calls \<open>sendData\<close> after the loop has taken the
  connection out of its tables and before it deletes it, the connection is marked again and the next round reads the
  descriptor of the deleted object.
\<close>

theorem disconnect_races_sendData:
  assumes "conns (srv s) p = Some c" and "clientSockets (srv s) (c_fd c) = Some (Some p)"
    and "this_round s = Some (env, rd, wr, c_fd c # is, At_read)" and "c_fd c \<in> rd" and "c_fd c \<notin> wr"
    and "int (c_fd c) \<noteq> listenSocket (srv s)" and "recv_ret env (c_fd c) = Some []"
  shows "srv_run cb [Append p data, Serve_next, Serve_next, Serve_next, Serve_next, Mark p] s = Inl Use_after_free \<and>
    (polite cb \<and> is = [] \<longrightarrow>
      srv_run cb [Serve_next, Serve_next, Append p data, Mark p, Serve_next, Serve_next, Serve_next, Serve_next,
        Begin_round env'] s = Inl Use_after_free)"
proof -
  let ?d = "sendData_append p data (srv s)"
  have d: "conns ?d p = Some (c\<lparr>dataToSend := dataToSend c @ data\<rparr>)" "clientSockets ?d = clientSockets (srv s)"
    "listenSocket ?d = listenSocket (srv s)"
    using assms(1) by (simp_all add: sendData_append_def upd_conn_def)
  have "read_ready cb env (c_fd c) ?d = Inr (Some p, Go_on ?d)"
    using read_end [of ?d p "c\<lparr>dataToSend := dataToSend c @ data\<rparr>" env cb] assms(2,6,7) d by simp
  then have "srv_run cb [Append p data, Serve_next, Serve_next, Serve_next, Serve_next, Mark p] s = Inl Use_after_free"
    using assms(1,3,4) by (simp add: srv_step_def append_step_def serve_next_def mark_step_def delete_connection_def)
  moreover have "srv_run cb [Serve_next, Serve_next, Append p data, Mark p, Serve_next, Serve_next, Serve_next, Serve_next,
      Begin_round env'] s = Inl Use_after_free" if "polite cb" "is = []"
  proof -
    define e where "e = conn_sendData p data (erase_connection (c_fd c) p (srv s))"
    let ?e = "clientStateChangedCallback cb (Some p) Disconnected e"
    have "p \<in> writingSockets e" by (simp add: e_def conn_sendData_def sendData_mark_def)
    then have marked: "p \<in> writingSockets ?e" using polite_extends(3) [OF that(1), of p e] by (auto simp: extends_def)
    have live: "conns (erase_connection (c_fd c) p (srv s)) p = Some c" using assms(1) by (simp add: erase_connection_def)
    then have live': "conns (sendData_append p data (erase_connection (c_fd c) p (srv s))) p \<noteq> None"
      by (simp add: sendData_append_def upd_conn_def)
    let ?r = "\<lambda>js st d. s\<lparr>srv := d, this_round := Some (env, rd, wr, js, st)\<rparr>"
    have "srv_run cb [Serve_next, Serve_next, Append p data, Mark p] s = Inr (?r [c_fd c] (Erased p) e)"
      using read_end [OF assms(1,2,6,7), of cb] assms(3,4) that(2) live live'
      by (simp add: srv_step_def serve_next_def append_step_def mark_step_def e_def conn_sendData_def)
    moreover have "srv_run cb [Serve_next, Serve_next, Serve_next, Serve_next, Begin_round env'] (?r [c_fd c] (Erased p) e) =
        Inl Use_after_free"
      using assms(5) marked by (simp add: srv_step_def serve_next_def dangling_round [of p] delete_connection_def)
    ultimately show ?thesis
      using srv_run_append [of cb "[Serve_next, Serve_next, Append p data, Mark p]"
          "[Serve_next, Serve_next, Serve_next, Serve_next, Begin_round env']" s] by (simp del: srv_run.simps res_bind_eq_Inr)
  qed
  ultimately show ?thesis by blast
qed

theorem disconnect_races_sendData_witness:
  "srv_run demo_cb [Append 0 ''x'', Serve_next, Serve_next, Serve_next, Serve_next, Mark 0]
     (demo_sending\<lparr>this_round := Some ((demo_env {7} {})\<lparr>recv_ret := (\<lambda>_. Some [])\<rparr>, {7}, {}, [7], At_read)\<rparr>) =
   Inl Use_after_free \<and>
   srv_run demo_cb [Serve_next, Serve_next, Append 0 ''x'', Mark 0, Serve_next, Serve_next, Serve_next, Serve_next,
      Begin_round (demo_env {} {})]
     (demo_sending\<lparr>this_round := Some ((demo_env {7} {})\<lparr>recv_ret := (\<lambda>_. Some [])\<rparr>, {7}, {}, [7], At_read)\<rparr>) =
   Inl Use_after_free"
proof -
  let ?env = "(demo_env {7} {})\<lparr>recv_ret := (\<lambda>_. Some [])\<rparr>"
  let ?s = "demo_sending\<lparr>this_round := Some (?env, {7}, {}, [7], At_read)\<rparr>"
  have "conns (srv ?s) 0 = Some \<lparr>c_fd = 7, receivedData = [], dataToSend = ''hi''\<rparr>" "clientSockets (srv ?s) 7 = Some (Some 0)"
    "int 7 \<noteq> listenSocket (srv ?s)"
    by (simp_all add: demo_sending_def Server_def)
  with disconnect_races_sendData [of ?s 0 "\<lparr>c_fd = 7, receivedData = [], dataToSend = ''hi''\<rparr>" ?env "{7}" "{}" "[]" demo_cb
      "''x''" "demo_env {} {}"] demo_polite show ?thesis by simp
qed

end
