(* ===== verification/SocketClient.thy ===== *)
theory SocketClient
  imports SocketServer CppStd
begin

text \<open>
  The client on plain sockets (\<open>lib/client.h\<close>, \<open>lib/client.cpp\<close>, \<open>addrString\<close> of \<open>lib/netutil.h\<close>), for
  POSIX systems. What the system calls return is an argument: of \<open>getaddrinfo\<close> the error or the list of
  addresses, for each address the descriptor of \<open>socket\<close> and the result of \<open>connect\<close>. \<open>opened\<close> are the
  descriptors the client has opened and not closed (a negative return of \<open>socket\<close> opens none), \<open>console\<close> what it has printed.
\<close>

section \<open>State and operations\<close>

text \<open>An address has the two readings \<open>sockaddr_in\<close> and \<open>sockaddr_in6\<close> of its memory.\<close>

record addrinfo =
  ai_family :: int
  sin_addr :: bytes
  sin6_addr :: bytes

definition addrString :: "int \<Rightarrow> (int \<Rightarrow> bytes \<Rightarrow> string) \<Rightarrow> addrinfo \<Rightarrow> string" where
  "addrString AF_INET inet_ntop ptr =
     (let addr = (if ai_family ptr = AF_INET then sin_addr ptr else sin6_addr ptr)
      in inet_ntop (ai_family ptr) addr)"

record client =
  connectSocket :: int
  opened :: "int list"
  console :: string

definition Client :: client where
  "Client = \<lparr>connectSocket = NULLSOCKET, opened = [], console = []\<rparr>"

text \<open>What a call of \<open>socket\<close> opens: a descriptor, unless it returned the error -1.\<close>

definition socket_opens :: "int \<Rightarrow> int list" where
  "socket_opens socket_ret = (if 0 \<le> socket_ret then [socket_ret] else [])"

definition print :: "string \<Rightarrow> client \<Rightarrow> client" where
  "print text c = c\<lparr>console := console c @ text\<rparr>"

definition not_connected_text :: "string \<Rightarrow> string" where
  "not_connected_text ipStr = ''Could not connect to: '' @ ipStr @ '' \<newline>''"

definition connected_text :: "string \<Rightarrow> string" where
  "connected_text ipStr = ''Connected to: '' @ ipStr @ ''\<newline>''"

text \<open>The address, and what \<open>socket\<close> and \<open>connect\<close> return for it; \<open>last_error\<close> is \<open>errno\<close>.\<close>

type_synonym attempt = "addrinfo \<times> int \<times> int"

fun connect_loop :: "(addrinfo \<Rightarrow> string) \<Rightarrow> int \<Rightarrow> attempt list \<Rightarrow> client \<Rightarrow> bool \<times> client" where
  "connect_loop address last_error [] c = (True, c)"
| "connect_loop address last_error ((ptr, socket_ret, connect_ret) # addrs) c =
     (let c = c\<lparr>connectSocket := socket_ret, opened := opened c @ socket_opens socket_ret\<rparr>
      in if connectSocket c = NULLSOCKET
         then (False, print (''socket failed with error: '' @ to_string last_error @ ''\<newline>'') c)
         else
           let ipStr = address ptr
           in if connect_ret = NULLSOCKET
              then connect_loop address last_error addrs (print (not_connected_text ipStr) c)
              else (True, print (connected_text ipStr) c))"

definition Client_connect ::
  "(addrinfo \<Rightarrow> string) \<Rightarrow> int \<Rightarrow> int \<Rightarrow> attempt list \<Rightarrow> client \<Rightarrow> bool \<times> client" where
  "Client_connect address last_error iResult addrs c =
     (if iResult \<noteq> 0 then (False, print (''getaddrinfo failed with error: '' @ to_string iResult @ ''\<newline>'') c)
      else connect_loop address last_error addrs c)"

text \<open>
  The destructor of \<open>Impl\<close> closes the one socket the client remembers; but \<open>Client\<close> holds its \<open>Impl\<close> by a
  plain pointer, and its destructor is empty.
\<close>

definition ClientImpl_destroy :: "client \<Rightarrow> client" where
  "ClientImpl_destroy c =
     (if connectSocket c \<noteq> 0 then c\<lparr>opened := removeAll (connectSocket c) (opened c)\<rparr> else c)"

definition Client_destroy :: "client \<Rightarrow> client" where
  "Client_destroy c = c"

section \<open>Properties\<close>

lemma print_fields [simp]:
  "connectSocket (print t c) = connectSocket c" "opened (print t c) = opened c" "console (print t c) = console c @ t"
  by (simp_all add: print_def)

lemma connect_loop_first_failure:
  assumes "\<forall>a\<in>set ok. fst (snd a) \<noteq> NULLSOCKET \<and> snd (snd a) = NULLSOCKET" and "s \<noteq> NULLSOCKET" and "r \<noteq> NULLSOCKET"
  shows "\<exists>c'. connect_loop address e (ok @ (ptr, s, r) # addrs) c = (True, c') \<and> connectSocket c' = s \<and>
    opened c' = opened c @ concat (map (\<lambda>a. socket_opens (fst (snd a))) ok) @ socket_opens s \<and>
    console c' = console c @ concat (map (\<lambda>a. not_connected_text (address (fst a))) ok) @
      connected_text (address ptr)"
  using assms(1)
proof (induction ok arbitrary: c)
  case Nil
  with assms(2,3) show ?case by simp
next
  case (Cons a ok)
  obtain p s' r' where a: "a = (p, s', r')" by (cases a)
  with Cons.prems have ne: "s' \<noteq> NULLSOCKET" "r' = NULLSOCKET" by auto
  let ?c = "print (not_connected_text (address p)) (c\<lparr>connectSocket := s', opened := opened c @ socket_opens s'\<rparr>)"
  obtain c' where "connect_loop address e (ok @ (ptr, s, r) # addrs) ?c = (True, c')" "connectSocket c' = s"
    "opened c' = opened ?c @ concat (map (\<lambda>a. socket_opens (fst (snd a))) ok) @ socket_opens s"
    "console c' = console ?c @ concat (map (\<lambda>a. not_connected_text (address (fst a))) ok) @
      connected_text (address ptr)"
    using Cons.IH [of ?c] Cons.prems by auto
  with a ne show ?case by (auto simp: Let_def)
qed

text \<open>
  C40 \<open>Client::connect\<close> takes success for failure: it reports a connection for every host whose
  name resolves; it says of the addresses that did connect that they could not be connected to, goes on, and
  keeps the first socket that failed to connect, as the one that is connected. None of
  the sockets it opened is closed, not even when the client is destroyed.
\<close>

theorem connect_keeps_first_failure:
  assumes "\<forall>a\<in>set ok. fst (snd a) \<noteq> NULLSOCKET \<and> snd (snd a) = NULLSOCKET" and "s \<noteq> NULLSOCKET" and "r \<noteq> NULLSOCKET"
  shows "\<exists>c'. Client_connect address e 0 (ok @ (ptr, s, r) # addrs) c = (True, c') \<and> connectSocket c' = s \<and>
    opened (Client_destroy c') = opened c @ concat (map (\<lambda>a. socket_opens (fst (snd a))) ok) @ socket_opens s \<and>
    console c' = console c @ concat (map (\<lambda>a. not_connected_text (address (fst a))) ok) @
      connected_text (address ptr)"
  using connect_loop_first_failure [OF assms, of address e ptr addrs c]
  by (simp add: Client_connect_def Client_destroy_def)

definition demo_addr :: addrinfo where
  "demo_addr = \<lparr>ai_family = 2, sin_addr = ''1'', sin6_addr = []\<rparr>"

theorem connect_keeps_first_failure_witness:
  "\<exists>c'. Client_connect (addrString 2 (\<lambda>_ a. a)) 0 0 [(demo_addr, 3, 0), (demo_addr, 4, - 1), (demo_addr, 5, 0)] Client = (True, c') \<and>
     connectSocket c' = 4 \<and> opened (Client_destroy c') = [3, 4] \<and>
     console c' = ''Could not connect to: 1 '' @ ''\<newline>'' @ ''Connected to: 1'' @ ''\<newline>''"
  using connect_keeps_first_failure [of "[(demo_addr, 3, 0)]" 4 "- 1" "addrString 2 (\<lambda>_ a. a)" 0 demo_addr "[(demo_addr, 5, 0)]" Client]
  by (simp add: NULLSOCKET_def socket_opens_def demo_addr_def addrString_def Client_def not_connected_text_def connected_text_def)

end
