(* ===== verification/WindowsServer.thy ===== *)
theory WindowsServer
  imports SocketServer
begin

text \<open>
  The branch of \<open>Server::poll\<close> for Windows (\<open>lib/server.cpp\<close>), which keeps a vector of descriptors to
  poll instead of a set and calls \<open>WSAPoll\<close> for reading and for writing. What \<open>WSAPoll\<close> reports
  for a descriptor are three flags; \<open>None\<close> is its error. The entry pushed for a new connection has
  an uninitialised \<open>revents\<close>, an input of its own. The local vector \<open>pollfds\<close> is part of the
  state that goes from round to round.
\<close>

section \<open>A round of the loop\<close>

record revents =
  RDNORM :: bool
  WRNORM :: bool
  HUP :: bool

record wsa_io =
  read_poll :: "(nat \<Rightarrow> revents) option"
  write_poll :: "(nat \<Rightarrow> revents) option"
  wsa_accept :: "nat option"
  uninit_revents :: revents
  wsa_recv :: "nat \<Rightarrow> bytes option"
  wsa_send :: "nat \<Rightarrow> bytes \<Rightarrow> int"

type_synonym 'u wsa_state = "'u server \<times> (nat \<times> revents) list"

datatype 'u wsa_polled = Wsa_false "'u server" | Wsa_on "'u wsa_state"

definition wsa_incoming :: "'u callbacks \<Rightarrow> wsa_io \<Rightarrow> 'u wsa_state \<Rightarrow> 'u wsa_polled" where
  "wsa_incoming cb env st =
     (case st of (d, pollfds) \<Rightarrow>
      if RDNORM (snd (pollfds ! 0)) then
        case wsa_accept env of
          None \<Rightarrow> Wsa_false d
        | Some asock \<Rightarrow>
            let p = next_conn d;
                d = d\<lparr>conns := (conns d)(p \<mapsto> \<lparr>c_fd = asock, receivedData = [], dataToSend = []\<rparr>),
                      next_conn := p + 1, clientSockets := (clientSockets d)(asock \<mapsto> Some p)\<rparr>
            in Wsa_on (clientStateChangedCallback cb (Some p) Connected d, pollfds @ [(asock, uninit_revents env)])
      else Wsa_on (d, pollfds))"

text \<open>One descriptor: data, or a disconnect. The result of \<open>receiveDataFromSocket\<close> is not used.\<close>

definition wsa_serve :: "'u callbacks \<Rightarrow> wsa_io \<Rightarrow> nat \<times> revents \<Rightarrow> 'u server \<Rightarrow> 'u server res" where
  "wsa_serve cb env fd d =
     (if RDNORM (snd fd) then
        let (conn, d) = lookup_insert (fst fd) d
        in case conn of
             None \<Rightarrow> Inr d
           | Some p \<Rightarrow> res_bind (receiveDataFromSocket cb (wsa_recv env (fst fd)) p d) (\<lambda>(_, d). Inr d)
      else if HUP (snd fd) then
        let (conn, d) = lookup_insert (fst fd) d;
            d = d\<lparr>writingSockets := writingSockets d - set_option conn,
                  clientSockets := (clientSockets d)(fst fd := None)\<rparr>;
            d = clientStateChangedCallback cb conn Disconnected d
        in Inr (case conn of None \<Rightarrow> d | Some p \<Rightarrow> d\<lparr>conns := (conns d)(p := None)\<rparr>)
      else Inr d)"

fun wsa_serve_all :: "'u callbacks \<Rightarrow> wsa_io \<Rightarrow> (nat \<times> revents) list \<Rightarrow> 'u server \<Rightarrow> 'u server res" where
  "wsa_serve_all cb env [] d = Inr d"
| "wsa_serve_all cb env (fd # fds) d = res_bind (wsa_serve cb env fd d) (wsa_serve_all cb env fds)"

definition wsa_write_one :: "wsa_io \<Rightarrow> nat \<times> revents \<Rightarrow> 'u server \<Rightarrow> 'u server res" where
  "wsa_write_one env fd d =
     (if WRNORM (snd fd) then
        let (conn, d) = lookup_insert (fst fd) d
        in case conn of None \<Rightarrow> Inr d | Some p \<Rightarrow> sendDataToSocket (wsa_send env) p d
      else Inr d)"

fun wsa_write_all :: "wsa_io \<Rightarrow> (nat \<times> revents) list \<Rightarrow> 'u server \<Rightarrow> 'u server res" where
  "wsa_write_all env [] d = Inr d"
| "wsa_write_all env (fd # fds) d = res_bind (wsa_write_one env fd d) (wsa_write_all env fds)"

definition wsa_writes :: "wsa_io \<Rightarrow> 'u wsa_state \<Rightarrow> 'u wsa_polled res" where
  "wsa_writes env st =
     (case st of (d, pollfds) \<Rightarrow>
      let connectionsToWrite = sorted_list_of_set (writingSockets d);
          wPollfds = map (\<lambda>p. c_fd (the (conns d p))) connectionsToWrite;
          d = d\<lparr>writingSockets := {}\<rparr>
      in if list_ex (\<lambda>p. conns d p = None) connectionsToWrite then Inl Use_after_free
         else if length wPollfds > 0 then
           case write_poll env of
             None \<Rightarrow> Inr (Wsa_false d)
           | Some re \<Rightarrow> res_bind (wsa_write_all env (map (\<lambda>fd. (fd, re fd)) wPollfds) d) (\<lambda>d. Inr (Wsa_on (d, pollfds)))
         else Inr (Wsa_on (d, pollfds)))"

definition wsa_round :: "'u callbacks \<Rightarrow> wsa_io \<Rightarrow> 'u wsa_state \<Rightarrow> 'u wsa_polled res" where
  "wsa_round cb env st =
     (case st of (d, pollfds) \<Rightarrow>
      case read_poll env of
        None \<Rightarrow> Inr (Wsa_false d)
      | Some re \<Rightarrow>
          (case wsa_incoming cb env (d, map (\<lambda>fd. (fst fd, re (fst fd))) pollfds) of
             Wsa_false d \<Rightarrow> Inr (Wsa_false d)
           | Wsa_on (d, pollfds) \<Rightarrow>
               res_bind (wsa_serve_all cb env pollfds d) (\<lambda>d. wsa_writes env (d, pollfds))))"

text \<open>\<open>WSAUser\<close> of \<open>lib/netutil.h\<close>, a member of the server: \<open>WSAStartup\<close> may fail.\<close>

definition WSAUser :: "int \<Rightarrow> unit res" where
  "WSAUser iResult = (if iResult \<noteq> 0 then Inl Runtime_error else Inr ())"

definition Server_windows :: "int \<Rightarrow> 'u \<Rightarrow> 'u server res" where
  "Server_windows iResult u = res_bind (WSAUser iResult) (\<lambda>_. Inr (Server u))"

text \<open>Before the loop only the listening socket is polled.\<close>

definition wsa_start :: "'u server \<Rightarrow> 'u wsa_state" where
  "wsa_start d = (d, [(nat (listenSocket d), \<lparr>RDNORM = False, WRNORM = False, HUP = False\<rparr>)])"

section \<open>Descriptors\<close>

lemma wsa_writes_pollfds: "wsa_writes env (d, pollfds) = Inr (Wsa_on (d', pollfds')) \<Longrightarrow> pollfds' = pollfds"
  by (auto simp: wsa_writes_def Let_def split: if_splits option.splits)

lemma wsa_incoming_pollfds:
  "wsa_incoming cb env (d, pollfds) = Wsa_on (d', pollfds') \<Longrightarrow> prefix pollfds pollfds'"
  by (auto simp: wsa_incoming_def Let_def split: if_splits option.splits)

lemma descriptors_never_removed:
  assumes "wsa_round cb env (d, pollfds) = Inr (Wsa_on (d', pollfds'))"
  shows "prefix (map fst pollfds) (map fst pollfds')"
proof -
  obtain re d1 fds1 where inc: "wsa_incoming cb env (d, map (\<lambda>fd. (fst fd, re (fst fd))) pollfds) = Wsa_on (d1, fds1)"
    and w: "\<exists>d2. wsa_writes env (d2, fds1) = Inr (Wsa_on (d', pollfds'))"
    using assms by (auto simp: wsa_round_def split: option.splits wsa_polled.splits prod.splits)
  from w have "pollfds' = fds1" using wsa_writes_pollfds by blast
  with map_mono_prefix [OF wsa_incoming_pollfds [OF inc], of fst] show ?thesis by (simp add: comp_def)
qed

lemma wsa_incoming_quiet:
  "\<not> RDNORM (snd (pollfds ! 0)) \<Longrightarrow> wsa_incoming cb env (d, pollfds) = Wsa_on (d, pollfds)"
  by (simp add: wsa_incoming_def)

lemma wsa_writes_quiet:
  "writingSockets d = {} \<Longrightarrow> wsa_writes env (d, pollfds) = Inr (Wsa_on (d, pollfds))"
  by (simp add: wsa_writes_def)

text \<open>A round in which only the connection of \<open>fd\<close> hangs up, with callbacks that record state changes.\<close>

definition hup_only :: "nat \<Rightarrow> nat \<Rightarrow> revents" where
  "hup_only fd x = \<lparr>RDNORM = False, WRNORM = False, HUP = (x = fd)\<rparr>"

definition record_state ::
  "nat option \<Rightarrow> ConnectionState \<Rightarrow> (nat option \<times> ConnectionState) list server \<Rightarrow> (nat option \<times> ConnectionState) list server" where
  "record_state conn st d = d\<lparr>user := user d @ [(conn, st)]\<rparr>"

lemma hangup_round:
  assumes "read_poll env = Some (hup_only fd)" and "writingSockets d = {}" and "ls \<noteq> fd"
    and "clientStateChangedCallback cb = record_state"
  shows "\<exists>d' fds. wsa_round cb env (d, [(ls, r1), (fd, r2)]) = Inr (Wsa_on (d', fds)) \<and> map fst fds = [ls, fd] \<and>
    user d' = user d @ [(Option.bind (clientSockets d fd) id, Disconnected)] \<and> clientSockets d' fd = None \<and>
    writingSockets d' = {}"
proof (cases "Option.bind (clientSockets d fd) id")
  case None
  then show ?thesis using assms
    by (cases "clientSockets d fd")
      (auto simp: wsa_round_def wsa_incoming_quiet hup_only_def wsa_serve_def lookup_insert_def record_state_def
        wsa_writes_quiet Let_def)
next
  case (Some p)
  then have "clientSockets d fd = Some (Some p)" by (cases "clientSockets d fd") auto
  with assms show ?thesis
    by (auto simp: wsa_round_def wsa_incoming_quiet hup_only_def wsa_serve_def lookup_insert_def record_state_def
        wsa_writes_quiet Let_def)
qed

section \<open>Properties\<close>

text \<open>
  C39 On Windows a closed connection stays in the vector of polled descriptors: no round removes one, so
  a descriptor that goes on reporting the hang-up is reported to the application again in every
  round, from the second time on with a null pointer for the connection.
\<close>

theorem disconnect_reported_again:
  assumes "read_poll env = Some (hup_only fd)" and "writingSockets d = {}" and "ls \<noteq> fd"
    and "clientStateChangedCallback cb = record_state" and "clientSockets d fd = Some (Some p)"
  shows "\<exists>d1 fds1 d2 fds2. wsa_round cb env (d, [(ls, r1), (fd, r2)]) = Inr (Wsa_on (d1, fds1)) \<and>
    wsa_round cb env (d1, fds1) = Inr (Wsa_on (d2, fds2)) \<and>
    user d2 = user d @ [(Some p, Disconnected), (None, Disconnected)] \<and> map fst fds2 = [ls, fd]"
proof -
  from hangup_round [OF assms(1-4), of r1 r2] assms(5) obtain d1 fds1 where
    1: "wsa_round cb env (d, [(ls, r1), (fd, r2)]) = Inr (Wsa_on (d1, fds1))" "map fst fds1 = [ls, fd]"
      "user d1 = user d @ [(Some p, Disconnected)]" "clientSockets d1 fd = None" "writingSockets d1 = {}"
    by auto
  from 1(2) obtain q1 q2 where fds1: "fds1 = [(ls, q1), (fd, q2)]" by (auto simp: map_eq_Cons_conv)
  from hangup_round [OF assms(1) 1(5) assms(3,4), of q1 q2] 1(4) obtain d2 fds2 where
    "wsa_round cb env (d1, fds1) = Inr (Wsa_on (d2, fds2))" "map fst fds2 = [ls, fd]"
    "user d2 = user d1 @ [(None, Disconnected)]"
    by (auto simp: fds1)
  with 1 show ?thesis by auto
qed

theorem disconnect_reported_again_witness:
  "\<exists>d1 fds1 d2 fds2.
     wsa_round \<lparr>dataCallback = (\<lambda>_ _ d. d), dataCompleteCallback = (\<lambda>_. True), clientStateChangedCallback = record_state\<rparr>
       \<lparr>read_poll = Some (hup_only 5), write_poll = None, wsa_accept = None, uninit_revents = hup_only 0 1,
        wsa_recv = (\<lambda>_. None), wsa_send = (\<lambda>_ _. 0)\<rparr>
       ((Server [])\<lparr>clientSockets := [5 \<mapsto> Some 0]\<rparr>, [(3, hup_only 0 3), (5, hup_only 0 5)]) = Inr (Wsa_on (d1, fds1)) \<and>
     wsa_round \<lparr>dataCallback = (\<lambda>_ _ d. d), dataCompleteCallback = (\<lambda>_. True), clientStateChangedCallback = record_state\<rparr>
       \<lparr>read_poll = Some (hup_only 5), write_poll = None, wsa_accept = None, uninit_revents = hup_only 0 1,
        wsa_recv = (\<lambda>_. None), wsa_send = (\<lambda>_ _. 0)\<rparr> (d1, fds1) = Inr (Wsa_on (d2, fds2)) \<and>
     user d2 = user (Server []) @ [(Some 0, Disconnected), (None, Disconnected)] \<and> map fst fds2 = [3, 5]"
  using disconnect_reported_again [of
      "\<lparr>read_poll = Some (hup_only 5), write_poll = None, wsa_accept = None, uninit_revents = hup_only 0 1,
        wsa_recv = (\<lambda>_. None), wsa_send = (\<lambda>_ _. 0)\<rparr>" 5 "(Server [])\<lparr>clientSockets := [5 \<mapsto> Some 0]\<rparr>" 3
      "\<lparr>dataCallback = (\<lambda>_ _ d. d), dataCompleteCallback = (\<lambda>_. True), clientStateChangedCallback = record_state\<rparr>"
      0 "hup_only 0 3" "hup_only 0 5"]
  by (simp add: Server_def)

end
