(* ===== verification/Database.thy ===== *)
theory Database
  imports CppStd
begin

text \<open>
  The database layer (\<open>dblib/db.cpp\<close>, \<open>dblib/mysql_backend.cpp\<close>) over the MySQL client library. What a
  call of the library returns is an argument: a success flag, the text of the last error, the columns of a
  result, a row. What is printed to \<open>std::cerr\<close> is recorded line by line. Of the bindings the model keeps
  the value bound to each parameter; an index outside the vectors is \<open>Out_of_bounds\<close>. A result column is bound
  to a union of a 16-bit number, a 32-bit number and a pointer to characters; the vector of unions is
  zeroed when it is resized. For a column of characters the pointer is to a new buffer of one character more than the length of
  the field, which is not initialised: a character of a buffer is \<open>None\<close> until it is written, and
  reading it then is \<open>Uninitialised\<close>. Columns of other types keep a null pointer as their buffer. The map from
  column names to indices is an association list, the latest entry first.
\<close>

section \<open>The connection\<close>

record MySQL =
  isConnected :: bool
  mysql_error :: string

definition MySQL_init :: MySQL where
  "MySQL_init = \<lparr>isConnected = False, mysql_error = []\<rparr>"

definition getErrorString :: "MySQL \<Rightarrow> string" where
  "getErrorString m = mysql_error m"

text \<open>A call of the library that fails leaves a text behind.\<close>

definition note_error :: "string option \<Rightarrow> MySQL \<Rightarrow> MySQL" where
  "note_error err m = (case err of None \<Rightarrow> m | Some e \<Rightarrow> m\<lparr>mysql_error := e\<rparr>)"

text \<open>The library returns no connection and an error text, or a connection.\<close>

definition MySQL_connect :: "string option \<Rightarrow> MySQL \<Rightarrow> (bool \<times> string) \<times> MySQL" where
  "MySQL_connect connect_error m =
     (let m = (note_error connect_error m)\<lparr>isConnected := (connect_error = None)\<rparr>
      in if connect_error \<noteq> None then ((False, mysql_error m), m) else ((True, []), m))"

definition MySQL_setSchema :: "int \<Rightarrow> bool" where
  "MySQL_setSchema select_db_ret = (select_db_ret = 0)"

definition MySQL_executeQuery :: "string option \<Rightarrow> MySQL \<Rightarrow> (bool \<times> string) \<times> MySQL" where
  "MySQL_executeQuery query_error m =
     (let m = note_error query_error m
      in if query_error \<noteq> None then ((False, mysql_error m), m) else ((True, []), m))"

text \<open>The statement is the one connection of the program; the lines printed are returned too.\<close>

definition createStatement :: "bool \<Rightarrow> MySQL \<Rightarrow> bool" where
  "createStatement stmt_init_ret m = stmt_init_ret"

definition Database_connect :: "string option \<Rightarrow> MySQL \<Rightarrow> bool \<times> string list \<times> MySQL" where
  "Database_connect connect_error m =
     (let (ret, m) = MySQL_connect connect_error m
      in (fst ret, (if \<not> fst ret then [snd ret] else []), m))"

definition Database_setSchema :: "int \<Rightarrow> MySQL \<Rightarrow> bool" where
  "Database_setSchema select_db_ret m = (if \<not> isConnected m then False else MySQL_setSchema select_db_ret)"

definition Database_execute :: "string option \<Rightarrow> MySQL \<Rightarrow> bool \<times> string list \<times> MySQL" where
  "Database_execute query_error m =
     (if \<not> isConnected m then (False, [], m)
      else
        let (ret, m) = MySQL_executeQuery query_error m
        in (fst ret, (if \<not> fst ret then [snd ret] else []), m))"

section \<open>Prepared statements\<close>

text \<open>
  What is bound to a parameter; of a string, the copy of its characters up to the first zero, and
  the length the library is told. The binding of a number points into the vectors of the statement and
  dangles when these are moved.
\<close>

datatype param = Unbound | PInt u32 | PString string nat | Dangling

definition c_str :: "string \<Rightarrow> string" where
  "c_str s = takeWhile (\<lambda>c. c \<noteq> CHR 0x00) s"

text \<open>
  The types of columns. \<open>Fixed_type\<close> are the other types of a fixed size (\<open>TINY\<close>, \<open>FLOAT\<close>, \<open>DOUBLE\<close>, \<open>LONGLONG\<close>,
  \<open>INT24\<close>, \<open>YEAR\<close>, dates and times), \<open>Bytes_type\<close> those that are fetched as a number of bytes (decimals, bits, blobs and the
  rest). A field of the result has a name, a type and a length.
\<close>

datatype column_type = SHORT | LONG | VARCHAR | VAR_STRING | STRING | Fixed_type | Bytes_type

type_synonym field = "string \<times> column_type \<times> nat"

abbreviation field_type :: "field \<Rightarrow> column_type" where
  "field_type f \<equiv> fst (snd f)"

abbreviation field_length :: "field \<Rightarrow> nat" where
  "field_length f \<equiv> snd (snd f)"

definition is_text :: "column_type \<Rightarrow> bool" where
  "is_text type \<longleftrightarrow> type \<in> {VARCHAR, VAR_STRING, STRING}"

text \<open>What a union holds: its bytes as a number, or a pointer to a buffer, with the \<open>buffer_length\<close> of its binding.\<close>

datatype bind_data = Number u32 | Pointer "char option list" nat

record prepared =
  stmt :: bool
  params :: "param list"
  capacity :: nat
  columnData :: "(string \<times> nat) list"
  columnTypes :: "column_type list"
  bindData :: "bind_data list"
  printed :: "string list"

definition PreparedStatement :: "bool \<Rightarrow> MySQL \<Rightarrow> prepared" where
  "PreparedStatement stmt_init_ret m =
     (let ps = \<lparr>stmt = False, params = [], capacity = 0, columnData = [], columnTypes = [], bindData = [], printed = []\<rparr>
      in if \<not> isConnected m then ps else ps\<lparr>stmt := createStatement stmt_init_ret m\<rparr>)"

text \<open>\<open>std::vector::resize\<close>\<close>

definition resize :: "nat \<Rightarrow> 'a \<Rightarrow> 'a list \<Rightarrow> 'a list" where
  "resize n x xs = take n xs @ replicate (n - length xs) x"

text \<open>
  \<open>resize\<close> beyond the capacity moves a vector to new memory, which doubles its size or is as large as
  asked for.
\<close>

definition move_param :: "param \<Rightarrow> param" where
  "move_param v = (case v of PInt _ \<Rightarrow> Dangling | _ \<Rightarrow> v)"

definition resize_params :: "nat \<Rightarrow> prepared \<Rightarrow> prepared" where
  "resize_params n ps =
     (if n \<le> capacity ps then ps\<lparr>params := resize n Unbound (params ps)\<rparr>
      else ps\<lparr>params := resize n Unbound (map move_param (params ps)), capacity := max n (2 * length (params ps))\<rparr>)"

definition print_error :: "MySQL \<Rightarrow> prepared \<Rightarrow> prepared" where
  "print_error m ps = ps\<lparr>printed := printed ps @ [getErrorString m]\<rparr>"

definition prepare :: "int \<Rightarrow> MySQL \<Rightarrow> string \<Rightarrow> prepared \<Rightarrow> bool \<times> prepared" where
  "prepare prepare_ret m query ps =
     (if \<not> stmt ps then (False, ps)
      else
        let paramCount = length (filter (\<lambda>c. c = CHR ''?'') query);
            ps = resize_params paramCount ps
        in if prepare_ret \<noteq> 0 then (False, print_error m ps) else (True, ps))"

definition bindValue :: "nat \<Rightarrow> param \<Rightarrow> prepared \<Rightarrow> (bool \<times> prepared) res" where
  "bindValue param v ps =
     (if \<not> stmt ps then Inr (False, ps)
      else if param > length (params ps) then Inr (False, ps)
      else if param < length (params ps) then Inr (True, ps\<lparr>params := (params ps)[param := v]\<rparr>)
      else Inl Out_of_bounds)"

definition bindValue_int :: "nat \<Rightarrow> u32 \<Rightarrow> prepared \<Rightarrow> (bool \<times> prepared) res" where
  "bindValue_int param v ps = bindValue param (PInt v) ps"

definition bindValue_string :: "nat \<Rightarrow> string \<Rightarrow> prepared \<Rightarrow> (bool \<times> prepared) res" where
  "bindValue_string param v ps = bindValue param (PString (c_str v) (length v)) ps"

text \<open>The metadata of the result, \<open>None\<close> if the statement has none.\<close>

fun column_loop :: "nat \<Rightarrow> field list \<Rightarrow> prepared \<Rightarrow> prepared" where
  "column_loop i [] ps = ps"
| "column_loop i ((name, type, len) # fs) ps =
     column_loop (i + 1) fs
       (ps\<lparr>columnData := (name, i) # columnData ps, columnTypes := (columnTypes ps)[i := type],
           bindData := (if is_text type then (bindData ps)[i := Pointer (replicate (len + 1) None) len] else bindData ps)\<rparr>)"

definition fillColumnData ::
  "field list option \<Rightarrow> int \<Rightarrow> MySQL \<Rightarrow> prepared \<Rightarrow> bool \<times> prepared" where
  "fillColumnData metadata bind_result_ret m ps =
     (if \<not> stmt ps then (False, ps)
      else if columnData ps = [] then
        case metadata of
          None \<Rightarrow> (True, ps)
        | Some fs \<Rightarrow>
            let ps = column_loop 0 fs
                  (ps\<lparr>bindData := resize (length fs) (Number 0) (bindData ps),
                      columnTypes := resize (length fs) Bytes_type (columnTypes ps)\<rparr>)
            in (True, if bind_result_ret \<noteq> 0 then print_error m ps else ps)
      else (True, ps))"

text \<open>
  The results of binding, executing and storing; the parameters given to the library are returned too. The
  library reads the parameters when the statement is executed.
\<close>

record lib_calls =
  bind_param_ret :: int
  execute_ret :: int
  store_ret :: int
  metadata :: "field list option"
  bind_result_ret :: int

definition ps_execute :: "lib_calls \<Rightarrow> MySQL \<Rightarrow> prepared \<Rightarrow> ((bool \<times> param list) \<times> prepared) res" where
  "ps_execute lib m ps =
     (if \<not> stmt ps then Inr ((False, []), ps)
      else if params ps \<noteq> [] \<and> bind_param_ret lib \<noteq> 0 then Inr ((False, []), print_error m ps)
      else if Dangling \<in> set (params ps) then Inl Use_after_free
      else if execute_ret lib \<noteq> 0 then Inr ((False, params ps), print_error m ps)
      else if store_ret lib \<noteq> 0 then Inr ((False, params ps), print_error m ps)
      else Inr ((True, params ps), snd (fillColumnData (metadata lib) (bind_result_ret lib) m ps)))"

text \<open>
  Fetching stores a row in the buffers, as the library documents it: a 16-bit column in the low two bytes of its union, a 32-bit
  column in all four, a string up to \<open>buffer_length\<close> characters and with a zero behind it if there is room for one. A value
  of another fixed size is stored through the null pointer; of bytes, a buffer of no length takes none. A cell \<open>CNone\<close> is
  \<open>NULL\<close>, which stores nothing. Nothing is stored at the end of the result (\<open>None\<close>). The call returns 0, or, if a string was
  cut, \<open>MYSQL_DATA_TRUNCATED\<close>, or another code.
\<close>

datatype cell = CShort "16 word" | CLong u32 | CString string | CFixed | CNone

definition store_text :: "string \<Rightarrow> nat \<Rightarrow> char option list \<Rightarrow> char option list" where
  "store_text s n buf =
     (let stored = map Some (take n s) @ (if length s < n then [Some (CHR 0x00)] else [])
      in stored @ drop (length stored) buf)"

definition store_cell :: "column_type \<Rightarrow> cell \<Rightarrow> bind_data \<Rightarrow> bind_data res" where
  "store_cell type v b =
     (case (type, v, b) of
        (SHORT, CShort n, Number w) \<Rightarrow> Inr (Number (or (and w 0xFFFF0000) (ucast n)))
      | (LONG, CLong n, Number w) \<Rightarrow> Inr (Number n)
      | (_, CString s, Pointer buf len) \<Rightarrow> Inr (Pointer (store_text s len buf) len)
      | (Fixed_type, CFixed, _) \<Rightarrow> Inl Null_pointer
      | _ \<Rightarrow> Inr b)"

fun store_row :: "column_type list \<Rightarrow> cell list \<Rightarrow> bind_data list \<Rightarrow> bind_data list res" where
  "store_row (t # ts) (v # vs) (b # bs) =
     res_bind (store_cell t v b) (\<lambda>b'. res_bind (store_row ts vs bs) (\<lambda>bs'. Inr (b' # bs')))"
| "store_row _ _ bs = Inr bs"

definition nextResult :: "int \<Rightarrow> cell list option \<Rightarrow> prepared \<Rightarrow> (bool \<times> prepared) res" where
  "nextResult fetch_ret row ps =
     (if \<not> stmt ps then Inr (False, ps)
      else case row of
             None \<Rightarrow> Inr (fetch_ret = 0, ps)
           | Some cs \<Rightarrow>
               res_bind (store_row (columnTypes ps) cs (bindData ps)) (\<lambda>bs.
                 Inr (fetch_ret = 0, ps\<lparr>bindData := bs\<rparr>)))"

text \<open>
  The value of a column; \<open>None\<close> is the result false. Reading the member of the union that was not
  written is undefined, and in the case of the pointer leaves the program's memory. A string is read from its buffer
  up to the first zero.
\<close>

fun read_c_str :: "char option list \<Rightarrow> string res" where
  "read_c_str [] = Inl Out_of_bounds"
| "read_c_str (None # buf) = Inl Uninitialised"
| "read_c_str (Some c # buf) = (if c = CHR 0x00 then Inr [] else res_bind (read_c_str buf) (\<lambda>s. Inr (c # s)))"

definition value_int :: "string \<Rightarrow> prepared \<Rightarrow> u32 option res" where
  "value_int colname ps =
     (if \<not> stmt ps then Inr None
      else case map_of (columnData ps) colname of
             None \<Rightarrow> Inr None
           | Some i \<Rightarrow>
               if i < length (bindData ps) then
                 (case bindData ps ! i of Number n \<Rightarrow> Inr (Some n) | Pointer _ _ \<Rightarrow> Inl Out_of_bounds)
               else Inl Out_of_bounds)"

definition value_string :: "string \<Rightarrow> prepared \<Rightarrow> string option res" where
  "value_string colname ps =
     (if \<not> stmt ps then Inr None
      else case map_of (columnData ps) colname of
             None \<Rightarrow> Inr None
           | Some i \<Rightarrow>
               if i < length (bindData ps) then
                 (case bindData ps ! i of Number n \<Rightarrow> Inl Out_of_bounds | Pointer buf _ \<Rightarrow> res_bind (read_c_str buf) (\<lambda>s. Inr (Some s)))
               else Inl Out_of_bounds)"

text \<open>
  The destructors. \<open>~PSImpl\<close> gives the indices of the buffers it deletes; \<open>~PreparedStatement\<close> gives
  the calls of the library it makes, and does not delete the object behind \<open>impl_\<close>.
\<close>

definition PSImpl_destroy :: "prepared \<Rightarrow> nat list" where
  "PSImpl_destroy ps =
     filter (\<lambda>i. columnTypes ps ! i = VAR_STRING \<or> columnTypes ps ! i = STRING) [0..<length (bindData ps)]"

datatype stmt_call = Stmt_free_result | Stmt_close

definition PreparedStatement_destroy :: "prepared \<Rightarrow> stmt_call list" where
  "PreparedStatement_destroy ps = (if stmt ps then [Stmt_free_result, Stmt_close] else [])"

section \<open>Columns\<close>

definition empty_cell :: "field \<Rightarrow> bind_data" where
  "empty_cell f = (if is_text (field_type f) then Pointer (replicate (field_length f + 1) None) (field_length f) else Number 0)"

lemma column_loop_result:
  assumes "length ts = i" and "length bs = i"
  shows "column_loop i fs \<lparr>stmt = st, params = qs, capacity = n, columnData = cd,
      columnTypes = ts @ replicate (length fs) Bytes_type, bindData = bs @ replicate (length fs) (Number 0), printed = out\<rparr> =
    \<lparr>stmt = st, params = qs, capacity = n, columnData = rev (zip (map fst fs) [i..<i + length fs]) @ cd,
      columnTypes = ts @ map field_type fs, bindData = bs @ map empty_cell fs, printed = out\<rparr>"
  using assms
proof (induction fs arbitrary: i ts bs cd)
  case (Cons f fs)
  obtain name type len where f: "f = (name, type, len)" by (cases f)
  define js where "js = [i + 1..<i + 1 + length fs]"
  have upt: "[i..<i + length (f # fs)] = i # js"
    using upt_conv_Cons [of i "i + length (f # fs)"] by (simp add: js_def)
  note IH = Cons.IH [of "ts @ [type]" "i + 1" "bs @ [empty_cell f]" "(name, i) # cd", folded js_def]
  show ?case
    using IH Cons.prems unfolding upt
    by (cases "is_text type") (auto simp: f empty_cell_def list_update_append)
qed simp

lemma map_of_columns:
  assumes "distinct (map fst fs)" and "j < length fs"
  shows "map_of (rev (zip (map fst fs) [0..<length fs])) (fst (fs ! j)) = Some j"
proof -
  have "distinct (map fst (rev (zip (map fst fs) [0..<length fs])))"
    using assms(1) by (simp add: rev_map [symmetric])
  moreover have "(fst (fs ! j), j) \<in> set (zip (map fst fs) [0..<length fs])"
    using assms(2) by (auto simp: in_set_zip intro!: exI [of _ j])
  ultimately show ?thesis by (intro map_of_is_SomeI) simp_all
qed

text \<open>All calls of the library succeed.\<close>

definition all_succeed :: "field list option \<Rightarrow> lib_calls" where
  "all_succeed fs = \<lparr>bind_param_ret = 0, execute_ret = 0, store_ret = 0, metadata = fs, bind_result_ret = 0\<rparr>"

lemma first_execute:
  assumes "stmt ps" and "columnData ps = []" and "columnTypes ps = []" and "bindData ps = []" and "Dangling \<notin> set (params ps)"
  shows "ps_execute (all_succeed (Some fs)) m ps =
    Inr ((True, params ps), ps\<lparr>columnTypes := map field_type fs, bindData := map empty_cell fs,
      columnData := rev (zip (map fst fs) [0..<length fs])\<rparr>)"
  using assms column_loop_result [of "[]" 0 "[]" fs]
  by (cases ps) (simp add: ps_execute_def fillColumnData_def resize_def all_succeed_def)

text \<open>
  The buffers \<open>fillColumnData\<close> allocates are those of the string columns; the destructor of \<open>PSImpl\<close>
  misses those of type \<open>VARCHAR\<close>.
\<close>

lemma varchar_buffers_missed:
  assumes "stmt ps" and "columnData ps = []" and "columnTypes ps = []" and "bindData ps = []" and "Dangling \<notin> set (params ps)"
    and "ps_execute (all_succeed (Some fs)) m ps = Inr (ret, ps1)" and "j < length fs"
  shows "(\<exists>buf len. bindData ps1 ! j = Pointer buf len) \<longleftrightarrow> j \<in> set (PSImpl_destroy ps1) \<or> field_type (fs ! j) = VARCHAR"
  using assms(6,7) first_execute [OF assms(1-5), of fs m]
  by (auto simp: PSImpl_destroy_def empty_cell_def is_text_def split: if_splits)

section \<open>Properties\<close>

text \<open>
  Binding a parameter: an index of a placeholder binds that parameter and no other, and one beyond
  the number of placeholders is refused; the index equal to that number, which is refused
  nowhere, is written behind the end of the vectors.
\<close>

theorem bindValue_cases:
  assumes "stmt ps"
  shows "(\<forall>k. k < length (params ps) \<longrightarrow> (\<exists>ps'. bindValue_int k v ps = Inr (True, ps') \<and>
      params ps' = (params ps)[k := PInt v] \<and> bindData ps' = bindData ps)) \<and>
    (\<forall>k. length (params ps) < k \<longrightarrow> bindValue_int k v ps = Inr (False, ps)) \<and>
    bindValue_int (length (params ps)) v ps = Inl Out_of_bounds"
  using assms by (simp add: bindValue_int_def bindValue_def)

theorem bindValue_cases_witness:
  "(\<exists>ps'. bindValue_int 0 7 \<lparr>stmt = True, params = [Unbound], capacity = 1, columnData = [], columnTypes = [], bindData = [], printed = []\<rparr> = Inr (True, ps') \<and>
     params ps' = [PInt 7]) \<and>
   bindValue_int 1 7 \<lparr>stmt = True, params = [Unbound], capacity = 1, columnData = [], columnTypes = [], bindData = [], printed = []\<rparr> = Inl Out_of_bounds"
  using bindValue_cases [of "\<lparr>stmt = True, params = [Unbound], capacity = 1, columnData = [], columnTypes = [], bindData = [], printed = []\<rparr>" 7]
  by auto

text \<open>
  The cells a column of each type can have and that are fetched; a value of another fixed size is not. The rest of
  the row is what the buffers hold then.
\<close>

fun cell_ok :: "column_type \<Rightarrow> cell \<Rightarrow> bool" where
  "cell_ok _ CNone = True"
| "cell_ok SHORT (CShort n) = True"
| "cell_ok LONG (CLong n) = True"
| "cell_ok type (CString s) = (type = Bytes_type \<or> is_text type \<and> CHR 0x00 \<notin> set s)"
| "cell_ok _ _ = False"

fun cell_read :: "field \<Rightarrow> cell \<Rightarrow> bind_data" where
  "cell_read f (CShort n) = Number (ucast n)"
| "cell_read f (CLong n) = Number n"
| "cell_read f (CString s) =
     (if is_text (field_type f) then Pointer (store_text s (field_length f) (replicate (field_length f + 1) None)) (field_length f)
      else Number 0)"
| "cell_read f _ = empty_cell f"

lemma store_cell_read: "cell_ok (field_type f) v \<Longrightarrow> store_cell (field_type f) v (empty_cell f) = Inr (cell_read f v)"
  by (cases "field_type f"; cases v) (simp_all add: store_cell_def empty_cell_def is_text_def)

lemma fetch_row:
  assumes "length row = length fs" and "\<forall>j<length fs. cell_ok (field_type (fs ! j)) (row ! j)"
  shows "store_row (map field_type fs) row (map empty_cell fs) = Inr (map2 cell_read fs row)"
  using assms
proof (induction fs arbitrary: row)
  case (Cons f fs)
  then obtain v vs where row: "row = v # vs" by (cases row) auto
  with Cons.prems have "cell_ok (field_type f) v" "length vs = length fs" "\<forall>j<length fs. cell_ok (field_type (fs ! j)) (vs ! j)"
    by auto
  with Cons.IH [of vs] row show ?case by (simp add: store_cell_read)
qed simp

lemma read_c_str_append:
  "CHR 0x00 \<notin> set s \<Longrightarrow> read_c_str (map Some s @ buf) = res_bind (read_c_str buf) (\<lambda>r. Inr (s @ r))"
  by (induction s) (auto simp: res_bind_def split: sum.split)

lemma read_stored:
  assumes "CHR 0x00 \<notin> set s"
  shows "read_c_str (store_text s n (replicate (n + 1) None)) = (if length s < n then Inr s else Inl Uninitialised)"
proof (cases "length s < n")
  case True
  with assms read_c_str_append [OF assms, of "Some (CHR 0x00) # _"] show ?thesis by (simp add: store_text_def Let_def)
next
  case False
  have "CHR 0x00 \<notin> set (take n s)" using assms by (blast dest: in_set_takeD)
  moreover have "drop n (replicate (n + 1) (None :: char option)) = [None]"
    by (simp only: drop_replicate) simp
  ultimately show ?thesis
    using read_c_str_append [of "take n s" "[None]"] False by (auto simp: store_text_def Let_def min_def simp del: replicate_Suc)
qed

text \<open>
  C22 A result is read back column by column: after the first execution of a statement and the fetch of a
  row, the value of a column with a unique name is that of the row's cell: a 32-bit number exactly, a 16-bit number
  zero-extended, so that a negative one changes its value, and a string without a zero exactly if it is shorter than
  its column. A string that fills its column or is longer is read on into the last character of the buffer, which
  nothing ever writes. \<open>NULL\<close> is read as 0, or from a buffer that was never written.
\<close>

theorem columns_read_back:
  assumes "stmt ps" and "columnData ps = []" and "columnTypes ps = []" and "bindData ps = []"
    and "distinct (map fst fs)" and "length row = length fs"
    and "\<forall>j<length fs. cell_ok (field_type (fs ! j)) (row ! j)"
    and "ps_execute (all_succeed (Some fs)) m ps = Inr (ret, ps1)"
    and "j < length fs" and "fs ! j = (name, type, len)" and "Dangling \<notin> set (params ps)"
  shows "fst ret \<and> (\<exists>ps2. nextResult fetch_ret (Some row) ps1 = Inr (fetch_ret = 0, ps2) \<and>
    (case row ! j of
       CShort n \<Rightarrow> value_int name ps2 = Inr (Some (ucast n))
     | CLong n \<Rightarrow> value_int name ps2 = Inr (Some n)
     | CString s \<Rightarrow> type = Bytes_type \<or>
         value_string name ps2 = (if length s < len then Inr (Some s) else Inl Uninitialised)
     | CFixed \<Rightarrow> False
     | CNone \<Rightarrow> (if is_text type then value_string name ps2 = Inl Uninitialised else value_int name ps2 = Inr (Some 0))))"
proof -
  have ps1: "fst ret" "ps1 = ps\<lparr>columnTypes := map field_type fs, bindData := map empty_cell fs,
      columnData := rev (zip (map fst fs) [0..<length fs])\<rparr>"
    using assms(8) first_execute [OF assms(1-4,11), of fs m] by auto
  define ps2 where "ps2 = ps1\<lparr>bindData := map2 cell_read fs row\<rparr>"
  have next': "nextResult fetch_ret (Some row) ps1 = Inr (fetch_ret = 0, ps2)"
    using assms(1) fetch_row [OF assms(6,7)] by (simp add: nextResult_def ps1(2) ps2_def)
  have ps2: "stmt ps2" "bindData ps2 ! j = cell_read (fs ! j) (row ! j)" "j < length (bindData ps2)"
    "map_of (columnData ps2) name = Some j"
    using assms(1,6,9,10) map_of_columns [OF assms(5,9)] by (simp_all add: ps2_def ps1(2))
  have ok: "cell_ok type (row ! j)" using assms(7,9,10) by force
  have "case row ! j of
       CShort n \<Rightarrow> value_int name ps2 = Inr (Some (ucast n))
     | CLong n \<Rightarrow> value_int name ps2 = Inr (Some n)
     | CString s \<Rightarrow> type = Bytes_type \<or> value_string name ps2 = (if length s < len then Inr (Some s) else Inl Uninitialised)
     | CFixed \<Rightarrow> False
     | CNone \<Rightarrow> (if is_text type then value_string name ps2 = Inl Uninitialised else value_int name ps2 = Inr (Some 0))"
  proof (cases "row ! j")
    case (CString s)
    with ok ps2 read_stored [of s len] assms(10) show ?thesis by (cases type) (auto simp: value_string_def is_text_def)
  next
    case CFixed
    with ok show ?thesis by (cases type) simp_all
  next
    case CNone
    with ps2 assms(10) show ?thesis by (simp add: value_string_def value_int_def empty_cell_def)
  qed (use ps2 in \<open>simp_all add: value_int_def\<close>)
  with ps1(1) next' show ?thesis by blast
qed

text \<open>A value of another fixed size, such as a date or a 64-bit number, is stored through a null pointer.\<close>

theorem unsupported_column_crashes:
  assumes "stmt ps" and "columnTypes ps = Fixed_type # ts" and "bindData ps = b # bs"
  shows "nextResult fetch_ret (Some (CFixed # row)) ps = Inl Null_pointer"
  using assms by (simp add: nextResult_def store_cell_def)

definition demo_prepared :: prepared where
  "demo_prepared = \<lparr>stmt = True, params = [], capacity = 0, columnData = [], columnTypes = [], bindData = [], printed = []\<rparr>"

theorem columns_read_back_witness:
  "\<exists>ret ps1 ps2. ps_execute (all_succeed (Some [(''name'', VAR_STRING, 4), (''age'', SHORT, 6)])) MySQL_init demo_prepared = Inr (ret, ps1) \<and>
     nextResult 0 (Some [CString ''bob'', CShort (- 1)]) ps1 = Inr (True, ps2) \<and>
     value_string ''name'' ps2 = Inr (Some ''bob'') \<and> value_int ''age'' ps2 = Inr (Some 65535)"
proof -
  let ?fs = "[(''name'', VAR_STRING, 4), (''age'', SHORT, 6)]" and ?row = "[CString ''bob'', CShort (- 1)]"
  have ok: "\<forall>j<length ?fs. cell_ok (field_type (?fs ! j)) (?row ! j)"
    by (simp add: All_less_Suc is_text_def)
  have d: "stmt demo_prepared" "columnData demo_prepared = []" "columnTypes demo_prepared = []" "bindData demo_prepared = []"
    "Dangling \<notin> set (params demo_prepared)" by (simp_all add: demo_prepared_def)
  have minus_one: "ucast (- 1 :: 16 word) = (65535 :: u32)" by code_simp
  obtain ret ps1 where e: "ps_execute (all_succeed (Some ?fs)) MySQL_init demo_prepared = Inr (ret, ps1)"
    using first_execute [OF d, of ?fs MySQL_init] by simp
  have dist: "distinct (map fst ?fs)" "length ?row = length ?fs" by simp_all
  note r = columns_read_back [OF d(1-4) dist ok e _ _ d(5), where fetch_ret = 0]
  from r [of 0 "''name''" VAR_STRING 4] obtain ps2 where ps2: "nextResult 0 (Some ?row) ps1 = Inr (True, ps2)"
    "value_string ''name'' ps2 = Inr (Some ''bob'')" by auto
  from r [of 1 "''age''" SHORT 6] ps2(1) have "value_int ''age'' ps2 = Inr (Some 65535)" by (auto simp: minus_one)
  with e ps2 show ?thesis by blast
qed

section \<open>Any sequence of operations\<close>

datatype ps_op =
    Op_prepare int MySQL string
  | Op_bind_int nat u32
  | Op_bind_string nat string
  | Op_execute lib_calls MySQL
  | Op_next int "cell list option"

definition ps_apply :: "ps_op \<Rightarrow> prepared \<Rightarrow> prepared res" where
  "ps_apply op ps =
     (case op of
        Op_prepare r m query \<Rightarrow> Inr (snd (prepare r m query ps))
      | Op_bind_int k v \<Rightarrow> res_bind (bindValue_int k v ps) (\<lambda>(_, ps). Inr ps)
      | Op_bind_string k v \<Rightarrow> res_bind (bindValue_string k v ps) (\<lambda>(_, ps). Inr ps)
      | Op_execute lib m \<Rightarrow> res_bind (ps_execute lib m ps) (\<lambda>(_, ps). Inr ps)
      | Op_next r row \<Rightarrow> res_bind (nextResult r row ps) (\<lambda>(_, ps). Inr ps))"

definition ps_begin :: "prepared \<Rightarrow> bool" where
  "ps_begin ps \<longleftrightarrow> (\<exists>r m. ps = PreparedStatement r m)"

definition ps_step :: "prepared \<Rightarrow> prepared \<Rightarrow> bool" where
  "ps_step ps ps' \<longleftrightarrow> (\<exists>op. ps_apply op ps = Inr ps')"

text \<open>
  What the union of a column holds: a pointer exactly for the columns of characters, to a buffer that has one character more
  than the library may write to.
\<close>

definition buffer_ok :: "column_type \<Rightarrow> bind_data \<Rightarrow> bool" where
  "buffer_ok type b =
     (case b of Number _ \<Rightarrow> \<not> is_text type | Pointer buf n \<Rightarrow> is_text type \<and> length buf = n + 1 \<and> buf ! n = None)"

definition columns_ok :: "prepared \<Rightarrow> bool" where
  "columns_ok ps \<longleftrightarrow> list_all2 buffer_ok (columnTypes ps) (bindData ps) \<and>
     (\<forall>(name, i)\<in>set (columnData ps). i < length (bindData ps)) \<and>
     (columnData ps = [] \<longrightarrow> bindData ps = [])"

lemma store_text_ok:
  assumes "length buf = n + 1" and "buf ! n = None"
  shows "length (store_text s n buf) = n + 1" "store_text s n buf ! n = None"
  using assms by (auto simp: store_text_def Let_def nth_append min_def)

lemma store_cell_ok: "buffer_ok type b \<Longrightarrow> store_cell type v b = Inr b' \<Longrightarrow> buffer_ok type b'"
  using store_text_ok
  by (auto simp: store_cell_def buffer_ok_def split: column_type.splits cell.splits bind_data.splits)

lemma store_row_ok: "list_all2 buffer_ok ts bs \<Longrightarrow> store_row ts vs bs = Inr bs' \<Longrightarrow> list_all2 buffer_ok ts bs'"
proof (induction ts vs bs arbitrary: bs' rule: store_row.induct)
  case (1 t ts v vs b bs)
  then show ?case by (auto simp: store_cell_ok)
qed auto

lemma store_row_length: "store_row ts vs bs = Inr bs' \<Longrightarrow> length bs' = length bs"
  by (induction ts vs bs arbitrary: bs' rule: store_row.induct) auto

lemma empty_cell_ok: "buffer_ok (field_type f) (empty_cell f)"
  by (simp add: buffer_ok_def empty_cell_def del: replicate_Suc)

lemma columns_ok_fill:
  assumes "columns_ok ps"
  shows "columns_ok (snd (fillColumnData fs r m ps))"
proof (cases "stmt ps \<and> columnData ps = []")
  case True
  with assms have empty: "bindData ps = []" "columnTypes ps = []"
    by (auto simp: columns_ok_def)
  show ?thesis
  proof (cases fs)
    case (Some cs)
    have "column_loop 0 cs (ps\<lparr>bindData := resize (length cs) (Number 0) (bindData ps),
        columnTypes := resize (length cs) Bytes_type (columnTypes ps)\<rparr>) =
      ps\<lparr>columnTypes := map field_type cs, bindData := map empty_cell cs,
        columnData := rev (zip (map fst cs) [0..<length cs])\<rparr>"
      using column_loop_result [of "[]" 0 "[]" cs] True empty by (cases ps) (simp add: resize_def)
    then show ?thesis
      using True Some
      by (auto simp: fillColumnData_def Let_def columns_ok_def print_error_def list_all2_map1 list_all2_map2 empty_cell_ok
          list_all2_same dest: set_zip_rightD)
  qed (use assms True in \<open>simp add: fillColumnData_def\<close>)
qed (use assms in \<open>auto simp: fillColumnData_def\<close>)

lemma columns_ok_apply:
  assumes "columns_ok ps" and "ps_apply op ps = Inr ps'"
  shows "columns_ok ps'"
proof (cases op)
  case (Op_execute lib m)
  with assms columns_ok_fill [OF assms(1)] show ?thesis
    by (auto simp: ps_apply_def ps_execute_def split: if_splits) (auto simp: columns_ok_def print_error_def)
next
  case (Op_next r row)
  with assms show ?thesis
    by (auto simp: ps_apply_def nextResult_def columns_ok_def store_row_length intro: store_row_ok split: if_splits option.splits)
qed (use assms in \<open>auto simp: ps_apply_def prepare_def Let_def resize_params_def print_error_def bindValue_int_def
      bindValue_string_def bindValue_def columns_ok_def split: if_splits option.splits\<close>)

interpretation statement: invariant_of ps_begin ps_step columns_ok
proof unfold_locales
  show "columns_ok ps" if "ps_begin ps" for ps
    using that by (auto simp: ps_begin_def PreparedStatement_def Let_def columns_ok_def split: if_splits)
  show "columns_ok ps'" if "columns_ok ps" and "ps_step ps ps'" for ps ps'
    using that columns_ok_apply by (auto simp: ps_step_def)
qed

lemma read_c_str_bounded:
  assumes "n < length buf" and "buf ! n = None"
  shows "(\<exists>s. read_c_str buf = Inr s \<and> length s < length buf) \<or> read_c_str buf = Inl Uninitialised"
  using assms
proof (induction buf arbitrary: n rule: read_c_str.induct)
  case (3 c buf)
  then obtain k where "n = Suc k" by (cases n) auto
  with 3 show ?case by (cases "c = CHR 0x00") fastforce+
qed auto

text \<open>
  C23 A known column name stands for a buffer of the statement, after any sequence of preparing, binding, executing and
  fetching, with whatever the library answers and however long the strings are: reading a column of numbers, or of a type that
  is not bound, as a number gives a value; reading a column of characters as a string gives a string that fits the buffer, or
  meets a character of the buffer that was never written, which is undefined. Before that character the buffer is not left.
\<close>

theorem column_value_defined:
  assumes "ps_begin ps0" and "ps_step\<^sup>*\<^sup>* ps0 ps" and "stmt ps" and "map_of (columnData ps) name = Some i"
  shows "i < length (columnTypes ps) \<and> i < length (bindData ps) \<and>
    (if is_text (columnTypes ps ! i)
     then \<exists>buf n. bindData ps ! i = Pointer buf n \<and>
       ((\<exists>s. value_string name ps = Inr (Some s) \<and> length s < length buf) \<or> value_string name ps = Inl Uninitialised)
     else \<exists>n. value_int name ps = Inr (Some n))"
proof -
  have inv: "list_all2 buffer_ok (columnTypes ps) (bindData ps)" "\<forall>(name, i)\<in>set (columnData ps). i < length (bindData ps)"
    using statement.inv_reachable [OF assms(1,2)] by (simp_all add: columns_ok_def)
  have i: "i < length (bindData ps)" using inv(2) map_of_SomeD [OF assms(4)] by blast
  moreover have len: "i < length (columnTypes ps)" using inv(1) i by (simp add: list_all2_lengthD)
  moreover have ok: "buffer_ok (columnTypes ps ! i) (bindData ps ! i)" using inv(1) len by (rule list_all2_nthD)
  ultimately show ?thesis
  proof (cases "bindData ps ! i")
    case (Pointer buf n)
    with ok have "n < length buf" "buf ! n = None" "is_text (columnTypes ps ! i)" by (simp_all add: buffer_ok_def)
    with read_c_str_bounded [of n buf] Pointer i len assms(3,4) show ?thesis by (auto simp: value_string_def)
  qed (use assms(3,4) in \<open>auto simp: value_int_def buffer_ok_def\<close>)
qed


lemma demo_prepared_begin: "ps_begin demo_prepared"
  unfolding ps_begin_def
  by (rule exI [of _ True], rule exI [of _ "\<lparr>isConnected = True, mysql_error = []\<rparr>"])
    (simp add: PreparedStatement_def demo_prepared_def createStatement_def)

theorem column_value_defined_witness:
  "\<exists>ps. ps_step demo_prepared ps \<and> map_of (columnData ps) ''age'' = Some 1 \<and> (\<exists>n. value_int ''age'' ps = Inr (Some n)) \<and>
     ((\<exists>s. value_string ''name'' ps = Inr (Some s)) \<or> value_string ''name'' ps = Inl Uninitialised)"
proof -
  let ?fs = "[(''name'', VAR_STRING, 20), (''age'', SHORT, 6)]"
  obtain ps where e: "ps_execute (all_succeed (Some ?fs)) MySQL_init demo_prepared = Inr ((True, []), ps)"
    and ps: "stmt ps" "columnData ps = [(''age'', 1), (''name'', 0)]" "columnTypes ps = [VAR_STRING, SHORT]"
    using first_execute [of demo_prepared ?fs MySQL_init] by (simp add: demo_prepared_def)
  have step: "ps_step demo_prepared ps"
    unfolding ps_step_def
    by (rule exI [of _ "Op_execute (all_succeed (Some ?fs)) MySQL_init"]) (simp add: ps_apply_def e)
  then have "ps_step\<^sup>*\<^sup>* demo_prepared ps" by (rule r_into_rtranclp)
  note vals = column_value_defined [OF demo_prepared_begin this ps(1)]
  show ?thesis
    using vals [of "''age''" 1] vals [of "''name''" 0] ps step by (auto simp: is_text_def)
qed

section \<open>Preparing again\<close>

text \<open>
  A statement that is prepared again keeps the columns of its first result: a column of the new
  query that the first one did not have is not found, whatever the library says of the new result.
\<close>

theorem columns_of_first_query_stay:
  assumes "stmt ps" and "columnData ps \<noteq> []" and "prepare r m query ps = (ok, ps1)"
    and "ps_execute lib m' ps1 = Inr (ret, ps2)" and "map_of (columnData ps) name = None"
  shows "columnData ps2 = columnData ps \<and> columnTypes ps2 = columnTypes ps \<and>
    value_int name ps2 = Inr None \<and> value_string name ps2 = Inr None"
proof -
  have 1: "stmt ps1" "columnData ps1 = columnData ps" "columnTypes ps1 = columnTypes ps"
    using assms(1,3) by (auto simp: prepare_def Let_def resize_params_def print_error_def split: if_splits)
  then have "stmt ps2" "columnData ps2 = columnData ps" "columnTypes ps2 = columnTypes ps"
    using assms(2,4) by (auto simp: ps_execute_def fillColumnData_def print_error_def split: if_splits)
  with assms(5) show ?thesis by (simp add: value_int_def value_string_def)
qed

theorem columns_of_first_query_stay_witness:
  "\<exists>ps1 ps2 ret. ps_execute (all_succeed (Some [(''a'', LONG, 11)])) MySQL_init demo_prepared = Inr (ret, ps1) \<and>
     ps_execute (all_succeed (Some [(''b'', LONG, 11)])) MySQL_init (snd (prepare 0 MySQL_init ''select b'' ps1)) = Inr (ret, ps2) \<and>
     value_int ''b'' ps2 = Inr None"
proof -
  obtain ps1 where e: "ps_execute (all_succeed (Some [(''a'', LONG, 11)])) MySQL_init demo_prepared = Inr ((True, []), ps1)"
    and ps: "stmt ps1" "columnData ps1 = [(''a'', 0)]" "params ps1 = []" "capacity ps1 = 0"
    using first_execute [of demo_prepared "[(''a'', LONG, 11)]" MySQL_init] by (simp add: demo_prepared_def)
  let ?p = "prepare 0 MySQL_init ''select b'' ps1"
  obtain ps2 where e2: "ps_execute (all_succeed (Some [(''b'', LONG, 11)])) MySQL_init (snd ?p) = Inr ((True, []), ps2)"
    using ps by (simp add: ps_execute_def all_succeed_def prepare_def resize_params_def resize_def)
  from columns_of_first_query_stay [OF ps(1) _ prod.collapse [symmetric] e2, of "''b''"] ps e e2 show ?thesis by auto
qed

text \<open>
  Preparing again for more parameters than there is room for moves the vectors that the bindings of
  numbers point into; executing the statement with a number bound before then reads freed memory.
\<close>

theorem bound_number_dangles:
  assumes "stmt ps" and "k < length (params ps)" and "params ps ! k = PInt v" and "length (params ps) \<le> capacity ps"
    and "capacity ps < length (filter (\<lambda>c. c = CHR ''?'') query)" and "prepare 0 m query ps = (ok, ps1)"
    and "bind_param_ret lib = 0"
  shows "ok \<and> ps_execute lib m ps1 = Inl Use_after_free"
proof -
  let ?n = "length (filter (\<lambda>c. c = CHR ''?'') query)"
  have ps1: "ok" "stmt ps1" "params ps1 = resize ?n Unbound (map move_param (params ps))"
    using assms(1,5,6) by (auto simp: prepare_def Let_def resize_params_def)
  have "params ps1 ! k = Dangling" "k < length (params ps1)"
    using assms(2-5) by (simp_all add: ps1(3) resize_def nth_append move_param_def)
  then have "Dangling \<in> set (params ps1)" by (metis nth_mem)
  with ps1(1,2) assms(7) show ?thesis by (auto simp: ps_execute_def)
qed

theorem bound_number_dangles_witness:
  "ps_execute (all_succeed None) MySQL_init
     (snd (prepare 0 MySQL_init ''a = ? and b = ?'' (demo_prepared\<lparr>params := [PInt 7], capacity := 1\<rparr>))) = Inl Use_after_free"
  using bound_number_dangles [OF _ _ _ _ _ prod.collapse [symmetric], of "demo_prepared\<lparr>params := [PInt 7], capacity := 1\<rparr>" 0 7
      "''a = ? and b = ?''" "all_succeed None" MySQL_init]
  by (simp add: demo_prepared_def all_succeed_def)

end
