(* ===== verification/SerialisationTypes.thy ===== *)
theory SerialisationTypes
  imports Serialisation
begin

text \<open>
  Typing of the values that are read. C++ fixes the type of the variable a value is read into; the
  universe of values of the model is typed by \<open>has_type\<close>. Whatever the characters of the stream
  are, reading gives a value of the type that was asked for, or throws one of the two exceptions of
  \<open>std::stoi\<close>. The operation of the readers that has no defined result on every string is
  \<open>pop_back\<close>, which the model makes \<open>Out_of_bounds\<close> on the empty one; the guards on the length
  of the token keep every reader from it.
\<close>

fun has_type :: "cpp_type \<Rightarrow> cpp_value \<Rightarrow> bool"
  and have_types :: "cpp_type list \<Rightarrow> cpp_value list \<Rightarrow> bool" where
  "has_type TInt (VInt d) = True"
| "has_type TString (VString s) = True"
| "has_type (TVector t) (VVector vec) = list_all (\<lambda>v. has_type t v) vec"
| "has_type (TObject ts) (VObject fs) = have_types ts fs"
| "has_type _ _ = False"
| "have_types [] [] = True"
| "have_types (t # ts) (f # fs) = (has_type t f \<and> have_types ts fs)"
| "have_types _ _ = False"

text \<open>The exceptions of reading.\<close>

definition read_error :: "cpp_error \<Rightarrow> bool" where
  "read_error e \<longleftrightarrow> e = Invalid_argument \<or> e = Out_of_range"

text \<open>A reader gives a value that satisfies \<open>P\<close>, or a read error.\<close>

definition reads :: "('a \<Rightarrow> bool) \<Rightarrow> ('a \<times> istream) res \<Rightarrow> bool" where
  "reads P r = (case r of Inl e \<Rightarrow> read_error e | Inr (v, _) \<Rightarrow> P v)"

lemma reads_Inl [simp]: "reads P (Inl e) = read_error e"
  by (simp add: reads_def)

lemma reads_Inr [simp]: "reads P (Inr (v, st)) = P v"
  by (simp add: reads_def)

lemma reads_cases:
  assumes "reads P r"
  obtains (error) e where "r = Inl e" "read_error e" | (val) v st where "r = Inr (v, st)" "P v"
  using assms by (cases r) (auto simp: reads_def)

lemma read_error_stoi: "stoi s = Inl e \<Longrightarrow> read_error e"
  by (auto simp: stoi_def stoi_digits_def read_error_def Let_def split: if_splits list.splits)

lemma reads_int: "reads (\<lambda>_. True) (deserialize_int st)"
  by (cases "stoi (fst (nextToken st))")
    (auto simp: deserialize_int_def split_beta Let_def dest: read_error_stoi)

text \<open>The loop over the elements of a vector.\<close>

lemma reads_element_loop:
  "(\<And>s. reads P (deser s)) \<Longrightarrow> list_all P vec \<Longrightarrow>
    (case element_loop deser sq vec of Inl e \<Rightarrow> read_error e | Inr vec' \<Rightarrow> list_all P vec')"
proof (induction deser sq vec rule: element_loop.induct)
  case (1 deser sq vec)
  from "1.prems"(1) have "reads P (deser (istringstream (fst (nextToken sq))))" .
  then show ?case
    using 1 by (cases rule: reads_cases) (subst element_loop.simps; simp)+
qed

lemma reads_deserializeSequence:
  assumes "\<And>s. reads P (deser s)" and "list_all P vec"
  shows "reads (list_all P) (deserializeSequence deser st vec)"
proof -
  define sq where "sq = snd (stream_get (istringstream (butlast (fst (nextToken st)))))"
  have "case element_loop deser sq vec of Inl e \<Rightarrow> read_error e | Inr vec' \<Rightarrow> list_all P vec'"
    by (rule reads_element_loop [OF assms])
  moreover have "2 < length (fst (nextToken st)) \<Longrightarrow> fst (nextToken st) \<noteq> []" by auto
  ultimately show ?thesis
    using assms(2)
    by (cases "element_loop deser sq vec")
      (simp_all add: deserializeSequence_def split_beta Let_def flip: sq_def)
qed

lemma have_types_map: "(\<And>t. t \<in> set ts \<Longrightarrow> has_type t (f t)) \<Longrightarrow> have_types ts (map f ts)"
  by (induction ts) auto

lemma has_type_default: "has_type t (default_value t)"
  by (induction t) (auto intro: have_types_map)

lemma has_type_elements: "has_type (TVector t) cur \<Longrightarrow> list_all (has_type t) (vector_elements cur)"
  by (cases cur) auto

lemma has_type_fields: "has_type (TObject ts) cur \<Longrightarrow> have_types ts (object_fields cur)"
  by (cases cur) auto

lemma reads_deserialize: "has_type t cur \<Longrightarrow> reads (has_type t) (deserialize t cur st)"
  and reads_deserialize_fields:
    "have_types ts curs \<Longrightarrow> reads (have_types ts) (deserialize_fields ts curs inn)"
proof (induction t cur st and ts curs inn rule: deserialize_deserialize_fields.induct)
  case (1 cur st)
  show ?case using reads_int [of st] by (auto simp: reads_def split: sum.splits)
next
  case (2 cur st)
  show ?case by (simp add: deserialize_string_def reads_def split_beta)
next
  case (3 t cur st)
  have "reads (list_all (has_type t))
    (deserializeSequence (\<lambda>s. deserialize t (default_value t) s) st (vector_elements cur))"
    by (rule reads_deserializeSequence)
      (use 3 has_type_default has_type_elements in auto)
  then show ?case by (cases rule: reads_cases) auto
next
  case (4 ts cur st)
  obtain inn st1 where inn: "ObjectDeser st = Inr (inn, st1)" by (rule ObjectDeser_total)
  have "reads (have_types ts) (deserialize_fields ts (object_fields cur) inn)"
    using 4 inn has_type_fields by auto
  then show ?case using inn by (cases rule: reads_cases) auto
next
  case (6 t ts curs inn)
  then obtain c cs where c: "curs = c # cs" "has_type t c" "have_types ts cs" by (cases curs) auto
  with "6.IH"(1) have "reads (has_type t) (deserialize t c inn)" by simp
  then show ?case
  proof (cases rule: reads_cases)
    case (val f inn1)
    with "6.IH"(2) c have "reads (have_types ts) (deserialize_fields ts cs inn1)" by auto
    then show ?thesis using val c by (cases rule: reads_cases) auto
  qed (use c in auto)
qed auto

section \<open>Properties\<close>

text \<open>
  C9 Reading is safe on every input: into a variable of type \<open>t\<close>, from any characters whatever, at
  any depth of vectors and objects, \<open>deserialize\<close> returns, never removes the last character of an
  empty string (\<open>pop_back\<close>, \<open>Out_of_bounds\<close> in the model), and either gives a value of type
  \<open>t\<close>, or throws \<open>std::invalid_argument\<close> or \<open>std::out_of_range\<close>.
\<close>

theorem deserialize_type_sound:
  assumes "has_type t cur"
  shows "(\<exists>v st'. deserialize t cur st = Inr (v, st') \<and> has_type t v) \<or>
    deserialize t cur st = Inl Invalid_argument \<or> deserialize t cur st = Inl Out_of_range"
  using reads_deserialize [OF assms, of st] by (cases rule: reads_cases) (auto simp: read_error_def)

theorem deserialize_type_sound_witness:
  "\<exists>v st'. deserialize (TObject [TInt, TVector TString]) (VObject [VInt 0, VVector []])
     (istringstream ''{7,[1,,x]}'') = Inr (v, st') \<and> has_type (TObject [TInt, TVector TString]) v"
proof -
  have "\<not> isl (deserialize (TObject [TInt, TVector TString]) (VObject [VInt 0, VVector []]) (istringstream ''{7,[1,,x]}''))"
    by code_simp
  then show ?thesis
    using deserialize_type_sound [of "TObject [TInt, TVector TString]" "VObject [VInt 0, VVector []]"
      "istringstream ''{7,[1,,x]}''"] by auto
qed

end
