(* ===== verification/SerialisationSets.thy ===== *)
theory SerialisationSets
  imports SerialisationRoundtrip "HOL-Library.List_Lexorder" "HOL-Library.Char_ord"
begin

text \<open>
  Writing a \<open>std::set\<close> (\<open>lib/serialisation.h\<close>). The code has no function that reads a set back; its text
  is that of the vector of its elements in ascending order, so a vector can be read from it. The
  order of a set of numbers is that of \<open>int\<close>, and the order of a set of strings is the lexicographic
  one over unsigned characters.
\<close>

lemma sequence_loop_map:
  "(\<And>out x. ser out x = ser' out (f x)) \<Longrightarrow> sequence_loop ser out first xs = sequence_loop ser' out first (map f xs)"
  by (induction xs arbitrary: out first) simp_all

lemma serialize_set_vector:
  assumes "\<And>out x. ser out x = serialize out (val x)"
  shows "serialize_set ser out S = serialize out (VVector (map val (sorted_list_of_set S)))"
  using sequence_loop_map [of ser serialize val, OF assms]
  by (simp add: serialize_set_def serializeSequence_def)

lemma set_read_as_vector:
  assumes "\<And>out x. ser out x = serialize out (val x)"
    and "finite S" and "\<And>x. x \<in> S \<Longrightarrow> wf_value t (val x) \<and> element_ok (val x)"
  shows "deserialize (TVector t) (VVector []) (istringstream (serialize_set ser [] S)) =
    Inr (VVector (map val (sorted_list_of_set S)), stream_end)"
proof -
  have "wf_value (TVector t) (VVector (map val (sorted_list_of_set S)))"
    using assms(2,3) by auto
  from deserialize_text_of [OF this follows_Nil] show ?thesis
    by (simp add: serialize_set_vector [OF assms(1)] istringstream_def serialize_text_of)
qed

section \<open>Properties\<close>



end
