(* ===== verification/WorkerRefinement.thy ===== *)
theory WorkerRefinement
  imports WorkerThread
begin

text \<open>
  What the worker thread promises to its clients, without queues of messages, threads and timers: an
  executor that runs the functions submitted to it one after the other, in the order of submission,
  until it is closed. Each step of the worker, under any interleaving with its clients and the
  timer, is one step of the executor or none.
\<close>

section \<open>The abstract executor\<close>

datatype executor_status = Open | Closed | Dead

record 'f executor =
  x_status :: executor_status
  x_todo :: "'f option list"
  x_done :: "'f list"

definition executor_new :: "'f executor" where
  "executor_new = \<lparr>x_status = Open, x_todo = [], x_done = []\<rparr>"

definition submit :: "'f option \<Rightarrow> 'f executor \<Rightarrow> 'f executor" where
  "submit f x = (if x_status x = Open then x\<lparr>x_todo := x_todo x @ [f]\<rparr> else x)"

definition close :: "'f executor \<Rightarrow> 'f executor" where
  "close x = (if x_status x = Open then x\<lparr>x_status := Closed\<rparr> else x)"

inductive executor_step :: "'f executor \<Rightarrow> 'f executor \<Rightarrow> bool" where
  submit: "executor_step x (submit f x)"
| close: "executor_step x (close x)"
| run: "x_todo x = Some f # r \<Longrightarrow> executor_step x (x\<lparr>x_todo := r, x_done := x_done x @ [f]\<rparr>)"
| crash: "x_todo x = None # r \<Longrightarrow> executor_step x (x\<lparr>x_todo := [], x_status := Dead\<rparr>)"

section \<open>The abstraction of a worker\<close>

definition user_data :: "'f ThreadMsg list \<Rightarrow> 'f option list" where
  "user_data msgs = map msg_callback (filter (\<lambda>m. msg_type m = MSG_POST_USER_DATA) msgs)"

definition executor_todo :: "'f worker \<Rightarrow> 'f option list" where
  "executor_todo w = (case w_pc w of
       W_Handle msg \<Rightarrow> user_data (before_exit (msg # m_queue w))
     | W_Join \<Rightarrow> []
     | W_Returned \<Rightarrow> []
     | W_Aborted \<Rightarrow> []
     | _ \<Rightarrow> user_data (before_exit (m_queue w)))"

definition executor_of :: "'f worker \<Rightarrow> 'f executor" where
  "executor_of w = \<lparr>
     x_status = (if w_pc w = W_Aborted then Dead else if no_exit (pushed w) then Open else Closed),
     x_todo = executor_todo w, x_done = ran w\<rparr>"

lemma user_data_simps [simp]:
  "user_data [] = []"
  "user_data (m # ms) = (if msg_type m = MSG_POST_USER_DATA then [msg_callback m] else []) @ user_data ms"
  "user_data (xs @ ys) = user_data xs @ user_data ys"
  by (simp_all add: user_data_def)

lemma before_exit_blocked: "\<not> no_exit q \<Longrightarrow> before_exit (q @ r) = before_exit q"
  by (induction q) auto

lemma before_exit_all: "no_exit q \<Longrightarrow> before_exit q = q"
  by (simp add: takeWhile_eq_all_conv)

text \<open>Where an exit message is, by the place of the worker.\<close>

lemma exit_in_queue:
  assumes "worker_inv w" and "w_pc w \<in> {W_NotCreated, W_Created, W_Loop, W_Wait}"
  shows "no_exit (pushed w) \<longleftrightarrow> no_exit (m_queue w)"
  using assms by (auto simp: worker_inv_def taken_ok_def queue_ok_def)

lemma exit_in_handling:
  assumes "worker_inv w" and "w_pc w = W_Handle msg"
  shows "no_exit (pushed w) \<longleftrightarrow> no_exit (msg # m_queue w)"
  using assms by (auto simp: worker_inv_def taken_ok_def queue_ok_def)

lemma exit_taken:
  assumes "worker_inv w" and "w_pc w \<in> {W_Join, W_Returned}"
  shows "\<not> no_exit (pushed w)"
  using assms by (auto simp: worker_inv_def taken_ok_def queue_ok_def)

lemma executor_of_push:
  assumes "worker_inv w"
  shows "executor_of (push_msg msg w) = (case msg_type msg of
      MSG_TIMER \<Rightarrow> executor_of w
    | MSG_POST_USER_DATA \<Rightarrow> submit (msg_callback msg) (executor_of w)
    | MSG_EXIT_THREAD \<Rightarrow> close (executor_of w))"
proof (cases "w_pc w")
  case (W_Handle m)
  with exit_in_handling [OF assms W_Handle] show ?thesis
    by (cases "no_exit (msg # m_queue w)"; cases "msg_type msg")
      (simp_all add: executor_of_def executor_todo_def submit_def close_def
        before_exit_all before_exit_append before_exit_blocked)
qed (use exit_in_queue [OF assms] exit_taken [OF assms] in
    \<open>cases "no_exit (m_queue w)"; cases "msg_type msg";
      simp add: executor_of_def executor_todo_def submit_def close_def
        before_exit_all before_exit_append before_exit_blocked\<close>)+

lemma executor_of_take:
  assumes "w_pc w = W_Loop"
  shows "executor_of (Process_take w) = executor_of w"
  using assms by (simp add: executor_of_def executor_todo_def Process_take_def split: list.split)

lemma executor_of_handle:
  assumes "worker_inv w" and "w_pc w = W_Handle msg"
  shows "executor_of (Process_handle msg w) = executor_of w \<or>
    executor_step (executor_of w) (executor_of (Process_handle msg w))"
proof (cases "msg_type msg")
  case MSG_POST_USER_DATA
  show ?thesis
  proof (cases "msg_callback msg")
    case None
    with MSG_POST_USER_DATA assms(2) executor_step.crash [of "executor_of w"] show ?thesis
      by (simp add: executor_of_def executor_todo_def Process_handle_def)
  next
    case (Some f)
    with MSG_POST_USER_DATA assms(2) executor_step.run [of "executor_of w" f] show ?thesis
      by (simp add: executor_of_def executor_todo_def Process_handle_def)
  qed
qed (use assms(2) in \<open>simp_all add: executor_of_def executor_todo_def Process_handle_def\<close>)

lemma executor_of_same:
  "worker_inv w \<Longrightarrow> executor_of (snd (CreateThread i w)) = executor_of w"
  "w_pc w = W_Created \<Longrightarrow> executor_of (Process_start w) = executor_of w"
  "w_pc w = W_Join \<Longrightarrow> executor_of (Process_finish w) = executor_of w"
  "executor_of (TimerThread_test w) = executor_of w"
  "executor_of (w\<lparr>t_pc := t\<rparr>) = executor_of w"
  by (simp_all add: executor_of_def executor_todo_def CreateThread_def Process_start_def Process_finish_def
      TimerThread_test_def worker_inv_def threads_ok_def split: worker_pc.split)

lemma executor_simulates:
  assumes "worker_inv w" and "worker_step w w'"
  shows "executor_of w' = executor_of w \<or> executor_step (executor_of w) (executor_of w')"
  using assms(2,1)
proof cases
  case (post data)
  then show ?thesis
    using executor_of_push [OF assms(1)] by (simp add: PostMsg_def executor_step.submit)
next
  case exit
  then show ?thesis
    using executor_of_push [OF assms(1)] by (simp add: ExitThread_def executor_step.close)
next
  case take_msg
  then show ?thesis
    by (simp add: executor_of_take)
next
  case (handle msg)
  then show ?thesis using executor_of_handle [OF assms(1)] by simp
next
  case timer_body
  then show ?thesis
    using executor_of_push [OF assms(1)] by (simp add: TimerThread_body_def executor_of_same)
qed (use assms(1) in \<open>simp_all add: executor_of_same\<close>)

interpretation executor: simulation worker_start worker_step worker_inv executor_of executor_new executor_step
proof
  show "worker_start w \<Longrightarrow> executor_of w = executor_new" for w :: "'f worker"
    by (auto simp: worker_start_def WorkerThread_def executor_of_def executor_todo_def executor_new_def)
qed (rule executor_simulates)

section \<open>Properties\<close>

text \<open>
  C8 The worker thread implements a sequential executor: under every interleaving of clients, worker
  and timer, what it does is a run of an executor that starts open and empty, takes submissions while
  it is open and runs them first in, first out. Each step of the worker is one step of the executor
  or invisible to it; posting is submitting, \<open>ExitThread\<close> is closing, and the messages of the timer
  are invisible.
\<close>

theorem worker_refines_executor:
  assumes "worker_start w0" and "worker_step\<^sup>*\<^sup>* w0 w"
  shows "executor_step\<^sup>*\<^sup>* executor_new (executor_of w) \<and>
    (\<forall>w'. worker_step w w' \<longrightarrow> executor_of w' = executor_of w \<or> executor_step (executor_of w) (executor_of w')) \<and>
    executor_of (PostMsg f w) = submit f (executor_of w) \<and>
    executor_of (ExitThread w) = close (executor_of w) \<and>
    executor_of (TimerThread_body w) = executor_of w"
proof -
  have inv: "worker_inv w" by (rule worker.inv_reachable [OF assms])
  show ?thesis
    using executor.sim_reachable [OF assms] executor_simulates [OF inv] executor_of_push [OF inv]
    by (simp add: PostMsg_def ExitThread_def TimerThread_body_def executor_of_same)
qed

theorem worker_refines_executor_witness:
  "executor_step\<^sup>*\<^sup>* executor_new (executor_of demo_returned) \<and>
   executor_of demo_queued = \<lparr>x_status = Closed, x_todo = [Some 5], x_done = []\<rparr> \<and>
   executor_of demo_returned = \<lparr>x_status = Closed, x_todo = [], x_done = [5]\<rparr>"
  using worker_refines_executor [OF demo_start demo_returned_reachable]
  by (simp add: executor_of_def executor_todo_def demo_defs)

end
