(* ===== verification/Spec2Isabelle.thy ===== *)
theory Spec2Isabelle
  imports SmallCalls RemoteThreads HandlerThread NetServer ClientNet Logging ServerThreads SocketClient WindowsServer Database SerialisationTypes
    SerialisationSets WorkerRefinement
begin

text \<open>
  A verification development for netframework, a C++ framework for remote method calls over TLS
  connections, with a socket server, a logger and a database layer beside it.

  \<^bold>\<open>The program.\<close> A client calls a method of a remote object through a proxy made by the macros of
  \<open>lib/remotecall.h\<close>. The arguments are written as text (\<open>lib/serialisation.h\<close>), put into an
  \<open>RMIPacket\<close> (\<open>lib/rmipacket.h\<close>), framed with a magic word and a 32-bit size (\<open>lib/coreproto.h\<close>) and
  sent by \<open>ClientNet\<close> (\<open>lib/clientnet.cpp\<close>). The server, \<open>NetBase\<close> (\<open>lib/netbase.cpp\<close>), keeps a
  \<open>SessionImpl\<close> for each connection, collects packets and hands them to \<open>HandlerManager\<close>
  (\<open>lib/handlermanager.cpp\<close>), which finds the \<open>HandlerBase\<close> (\<open>lib/handlerbase.cpp\<close>) by name. A
  handler is a \<open>ThreadedClass\<close> (\<open>lib/threadedclass.h\<close>): calls from other threads are posted to its
  \<open>WorkerThread\<close> (\<open>lib/workerthread.cpp\<close>). The registered function reads the arguments, calls the
  method and writes the answer (\<open>lib/retvalserialisation.h\<close>), passing back the parameters whose
  spelling is that of a reference (\<open>lib/consthelpers.hpp\<close>). Independent of this are the server and
  client on plain sockets (\<open>lib/server.cpp\<close>, \<open>lib/client.cpp\<close>), the logger (\<open>lib/log.h\<close>,
  \<open>lib/log.cpp\<close>) and the MySQL layer (\<open>dblib\<close>).

  \<^bold>\<open>Conventions.\<close> A class is a record of its members and a method is a function on it, with the name of
  the C++ method, prefixed by the class where names clash. A constructor is \<open>C\<close> or \<open>C_new\<close>, a
  destructor \<open>C_destroy\<close>. An exception, a failed assertion and undefined behaviour (an access outside
  an array, a deleted object, an empty function, a signed overflow) are values of \<open>cpp_error\<close>, the left
  side of the result type \<open>'a res\<close>; an operation that cannot fail returns its value directly. An
  \<open>int\<close> is a 32-bit word read by \<open>sint\<close>, \<open>uint32_t\<close> and \<open>int64_t\<close> are 32 and 64-bit words. Pointers to
  objects with an identity (sessions, handlers, connections) are addresses of a heap, so that
  aliasing and deletion are visible. Memory that the code reads before it is written is an argument,
  usually called \<open>uninit\<close> or \<open>g\<close>, so a theorem holds whatever it contains. Code outside the
  repository (asio, the socket calls, MySQL, the clock, the callbacks of a client) is an argument:
  what the call returned, or the function that was given.

  \<^bold>\<open>The theories.\<close>
  \<^item> \<open>Prelude\<close>: errors and results, words, generic lemmas; the locale \<open>invariant_of\<close>, what is kept by
    every step holds in every reachable state, and \<open>simulation\<close>, which extends it to an abstract machine.
  \<^item> \<open>CppStd\<close>: input streams with their end-of-file bit, \<open>std::to_string\<close>, \<open>std::stoi\<close>.
  \<^item> \<open>Serialisation\<close>: \<open>replaceInString\<close>, the writers, \<open>nextToken\<close> with its three loops, the readers.
    \<open>TokenScan\<close> says what each loop of the tokenizer consumes, \<open>SerialisationRoundtrip\<close> derives the
    round trip for values of any nesting whose strings the format can carry, and what happens to
    others, \<open>SerialisationTypes\<close> that reading is type-safe on every input, \<open>SerialisationSets\<close> the
    order in which a set is written.
  \<^item> \<open>ConstHelpers\<close>: the string literals of compile time, equivalent to functions on lists.
  \<^item> \<open>RetvalSerialisation\<close>: answers. Its locales \<open>text_codec\<close> and \<open>cut_codec\<close> state what a field of an
    object promises when the object is closed, and when it is not, as in the code.
  \<^item> \<open>RmiPacket\<close>: the request packet and its text; which texts it carries (\<open>carried\<close>), among them all that
    \<open>make_call\<close> writes, and how it changes them.
  \<^item> \<open>WorkerThread\<close>: the queue with its condition variable, \<open>Process\<close> and \<open>TimerThread\<close> as atomic sections,
    interleaved in any order by \<open>worker_step\<close>; order, completeness at exit and that shutting down cannot block.
    \<open>WorkerRefinement\<close>: the worker implements an abstract sequential executor.
  \<^item> \<open>ThreadedClass\<close>: \<open>checkThread\<close>. The locale \<open>event_loop\<close> is the interface it needs of a worker.
  \<^item> \<open>Handlers\<close>: \<open>NetInfo\<close>, \<open>HandlerBase\<close>, the registration macro, \<open>HandlerManager\<close>. \<open>HandlerThread\<close>:
    a handler together with its worker and any number of callers; its object changes as if the calls
    were made one after the other.
  \<^item> \<open>RemoteCall\<close>: the proxy. The locale \<open>transport\<close> is what a caller needs of \<open>sendAndWait\<close>; it is
    interpreted on the in-process transport of \<open>test/handlertest.cpp\<close>. \<open>SmallCalls\<close>: the macros for
    fewer than three parameters, with the overloads they lack as arguments. \<open>RemoteThreads\<close>: the same call
    from another thread, with what the handler's thread does between the two statements of \<open>sendAndWait\<close>.
  \<^item> \<open>Coreproto\<close>: packets. The locales \<open>framing\<close> and \<open>fetching\<close> are what a reader of packets needs;
    the first is interpreted on the array and the vector versions of the functions, the second on
    the array version, since the vector version of \<open>fetchData\<close> breaks its law.
  \<^item> \<open>NetSession\<close>: one connection, its handlers driven by the completions of asio. \<open>NetBase\<close>: the
    implementation of the server over a heap of sessions. \<open>NetServer\<close>: the class \<open>NetBase\<close> itself and
    the run of its event loop. \<open>ClientNet\<close>: the blocking client.
  \<^item> \<open>SocketServer\<close>: \<open>Server\<close> and \<open>ClientConnection\<close> with the \<open>select\<close> loop of POSIX systems;
    \<open>ServerThreads\<close>: that loop, cut at its critical sections and at each statement that ends a connection,
    interleaved with threads that call \<open>sendData\<close>; \<open>WindowsServer\<close>: the \<open>WSAPoll\<close> loop; \<open>SocketClient\<close>: \<open>Client\<close>.
  \<^item> \<open>Logging\<close>: placeholders, the header of a line on both platforms, the log file.
  \<^item> \<open>Database\<close>: the connection and prepared statements, with the buffers of the columns, which are not
    initialised and have the length of the field, and what holds after any sequence of their operations.

  This theory holds what spans the components from the wire to the method.

  \<^bold>\<open>What is shown.\<close> Round trips: values, sets, answers, packets and the columns of a result are read
  back as they were written, under the conditions the code really needs. Refinement: a remote call on the handler's
  thread is the local call, for arguments and answers the unclosed texts can carry, and one from another thread is if the handler is
  fast enough; a request on the wire is a call of the registered function on the handler's thread; a
  handler is sequential, whoever calls it; the worker is a first-in first-out executor; the index loops of the
  logger and of \<open>replaceInString\<close> are substitutions. Invariants: every open session has at most one write in
  progress, the list of sessions is exact, the messages taken, run and pending of a worker are those posted,
  data waiting on a socket is scheduled, the columns of a statement name its buffers. Safety and liveness:
  no call is lost, reordered or run twice, an exit message always can end the worker, and the socket
  server does not touch a deleted connection, if none ends inside a \<open>sendData\<close> and none is sent on while it ends. Typing and bounds:
  reading stays in its type and its strings, fetching a packet in its buffer, a log line in its 60 characters. Where the
  code does not do what it means to do, the theorem states what it does: answers lose a digit, string
  arguments arrive escaped, sent data is sent again, a large packet ends the server, a partial packet
  is delivered with stale bytes, a caller on another thread reads the answer of the call before, a string that fills its column is
  read past its end, the manager never answers, a connection may be deleted under a thread that sends,
  \<open>Client::connect\<close> keeps the socket that failed.

  \<^bold>\<open>Termination and bounds.\<close> No function has fuel. The loops over a stream, an index or a list are total,
  with a measure on what is left; \<open>replaceInString\<close> may run forever and is a \<open>partial_function\<close> into
  \<open>option\<close>, whose divergence is characterised. The event loops never end by themselves: they are
  step relations (\<open>worker_step\<close>, \<open>handler_step\<close>, \<open>session_moves\<close>, \<open>net_step\<close>, \<open>manager_step\<close>,
  \<open>srv_moves\<close>, \<open>ps_step\<close>), or functions of the list of events that happen (\<open>io_run\<close>, \<open>poll_rounds\<close>,
  \<open>srv_run\<close>), and theorems quantify over these.

  \<^bold>\<open>Not modelled.\<close> The overloads of \<open>serialiseAnswer\<close> and \<open>parseAnswer\<close> that \<open>REGISTER_RMI0\<close> to
  \<open>REGISTER_RMI2\<close>, \<open>make_call\<close> without parameters and \<open>MAKE_RMI0\<close> name do not exist; they are arguments.
  \<open>Client::sendData\<close> is declared only. TLS, name resolution and the memory of the MySQL library are
  outside the repository. Critical sections, and single statements where the code takes no lock, are
  interleaved as a whole; that two threads may change \<open>writingSockets\<close> at the same instant, once without its mutex, is not. What the
  servers print to the console for diagnosis is left out; what the logger, the socket client and the
  database report is not. The tests and the build files are not part of the program.
\<close>

section \<open>From the wire to the handler\<close>


text \<open>The call of the framework's test, sent as a request: the handler answers through its own \<open>sendAnswer\<close>.\<close>

definition demo_admin_request :: RMIPacket where
  "demo_admin_request = \<lparr>handlerName = ''AdminHandler'', signature = ''addUser'', requestId = 1,
     data = os_out (ObjectSer_put serialize (ObjectSer_put serialize (ObjectSer_put serialize (ObjectSer [])
       (VString ''username'')) (VString [])) (VString ''HASH''))\<rparr>"

definition demo_admin_manager :: "(unit, unit answering) HandlerManager" where
  "demo_admin_manager = (HandlerManager_new [0 \<mapsto> AdminHandler\<lparr>hb_thread := Process_start (hb_thread AdminHandler)\<rparr>])
     \<lparr>hm_handlers := [''AdminHandler'' \<mapsto> 0]\<rparr>"

lemma AdminHandler_answers:
  "\<exists>obj. exec_call (hb_functions AdminHandler) (''addUser'', dat, ni) o' = Inr obj \<and> answer_text (derived obj) \<noteq> []"
proof -
  obtain deser st where o: "ObjectDeser (istringstream dat) = Inr (deser, st)" by (rule ObjectDeser_total)
  show ?thesis
    by (simp add: exec_call_def AdminHandler_def REGISTER_RMI3_def rmi_lambda3_def readData3_def o deserialize_string_def
        split_beta addUser_def AdminHandler_sendAnswer_def serialiseAnswer_text [of _ _ _ _ _ _ _ TInt TInt TInt TInt])
qed


end
